theory Spec2Isabelle
  imports Complex_Main "HOL-Library.AList"
begin

section \<open>Surname classification pipeline (chapter 4, a multilayer perceptron on surnames)\<close>

text \<open>
  A shallow embedding of the Python classes and helper functions of
  \<^verbatim>\<open>chapters/chapter_4/4_2_mlp_surnames/Learn.ipynb\<close>. Exceptions are values of
  \<open>py_error\<close>; a function that may raise returns \<open>py_error + 'a\<close>. A Python
  \<^verbatim>\<open>dict\<close> is an association list in insertion order (its keys are distinct), with
  \<open>map_of\<close> for reading and \<open>AList.update\<close> for \<^verbatim>\<open>d[k] = v\<close> (overwrite in place,
  or append a new key at the end). Floating-point numbers are modelled as reals: the
  properties below compare, count and index, they do not depend on rounding.
\<close>

datatype py_error = KeyError | IndexError | ValueError | ZeroDivisionError | RuntimeError

subsection \<open>Vocabulary\<close>

text \<open>
  The keys of \<^verbatim>\<open>_idx_to_token\<close>. The constructor's comprehension
  \<^verbatim>\<open>{id:token for token, idx in self._token_to_idx.items()}\<close> uses the builtin function
  \<^verbatim>\<open>id\<close> as the key of every entry (not the loop variable \<^verbatim>\<open>idx\<close>), so the inverse
  dictionary can hold a key that is no integer.
\<close>

datatype idx_key = IntKey int | BuiltinId

record Vocabulary =
  token_to_idx :: "(string \<times> int) list"
  idx_to_token :: "(idx_key \<times> string) list"
  add_unk :: bool
  unk_token :: string
  unk_index :: int

text \<open>
  \<^verbatim>\<open>add_token\<close>: the \<^verbatim>\<open>try\<close> reads the forward dictionary; on \<^verbatim>\<open>KeyError\<close> the token gets
  the index \<^verbatim>\<open>len(self._token_to_idx)\<close> and is stored in both dictionaries. The result is
  the returned index and the updated object.
\<close>

definition add_token :: "Vocabulary \<Rightarrow> string \<Rightarrow> int \<times> Vocabulary" where
  "add_token v token =
     (case map_of (token_to_idx v) token of
        Some index \<Rightarrow> (index, v)
      | None \<Rightarrow>
          (let index = int (length (token_to_idx v))
           in (index,
               v\<lparr>token_to_idx := AList.update token index (token_to_idx v),
                 idx_to_token := AList.update (IntKey index) token (idx_to_token v)\<rparr>)))"

fun add_many :: "Vocabulary \<Rightarrow> string list \<Rightarrow> int list \<times> Vocabulary" where
  "add_many v [] = ([], v)"
| "add_many v (token # tokens) =
     (let (i, v1) = add_token v token;
          (is, v2) = add_many v1 tokens
      in (i # is, v2))"

text \<open>
  \<^verbatim>\<open>__init__(self, token_to_idx=None, add_unk=True, unk_token="<UNK>")\<close>. The
  comprehension writes every token under the one key \<^verbatim>\<open>id\<close>, so the last token of the
  iteration survives.
\<close>

definition Vocabulary_init :: "(string \<times> int) list option \<Rightarrow> bool \<Rightarrow> string \<Rightarrow> Vocabulary" where
  "Vocabulary_init token_to_idx_arg add_unk_arg unk_token_arg =
     (let t2i = (case token_to_idx_arg of None \<Rightarrow> [] | Some d \<Rightarrow> d);
          v = \<lparr>token_to_idx = t2i,
               idx_to_token = foldl (\<lambda>d (token, idx). AList.update BuiltinId token d) [] t2i,
               add_unk = add_unk_arg,
               unk_token = unk_token_arg,
               unk_index = - 1\<rparr>
      in if add_unk_arg
         then (let (i, v1) = add_token v unk_token_arg in v1\<lparr>unk_index := i\<rparr>)
         else v)"

record contents =
  c_token_to_idx :: "(string \<times> int) list"
  c_add_unk :: bool
  c_unk_token :: string

text \<open>
  \<^verbatim>\<open>to_serializable\<close> hands out the forward dictionary, the flag and the unknown token;
  \<^verbatim>\<open>from_serializable\<close> passes them to the constructor (\<^verbatim>\<open>cls(**contents)\<close>). The statements
  below read a vocabulary after the round trip and do not write to it, so the contents are
  a value.
\<close>

definition to_serializable :: "Vocabulary \<Rightarrow> contents" where
  "to_serializable v =
     \<lparr>c_token_to_idx = token_to_idx v, c_add_unk = add_unk v, c_unk_token = unk_token v\<rparr>"

definition from_serializable :: "contents \<Rightarrow> Vocabulary" where
  "from_serializable c =
     Vocabulary_init (Some (c_token_to_idx c)) (c_add_unk c) (c_unk_token c)"

definition lookup_token :: "Vocabulary \<Rightarrow> string \<Rightarrow> py_error + int" where
  "lookup_token v token =
     (if unk_index v \<ge> 0
      then Inr (case map_of (token_to_idx v) token of Some i \<Rightarrow> i | None \<Rightarrow> unk_index v)
      else (case map_of (token_to_idx v) token of Some i \<Rightarrow> Inr i | None \<Rightarrow> Inl KeyError))"

definition lookup_index :: "Vocabulary \<Rightarrow> int \<Rightarrow> py_error + string" where
  "lookup_index v index =
     (case map_of (idx_to_token v) (IntKey index) of
        None \<Rightarrow> Inl KeyError
      | Some token \<Rightarrow> Inr token)"

definition len_vocab :: "Vocabulary \<Rightarrow> nat" where
  "len_vocab v = length (token_to_idx v)"

text \<open>
  The state of a vocabulary whose forward dictionary was filled by \<^verbatim>\<open>add_token\<close> only: the
  indices are \<open>0, 1, \<dots>\<close> in insertion order, the keys are distinct, and \<^verbatim>\<open>unk_index\<close> is
  the index of the unknown token (or \<open>-1\<close> without one). \<open>inverse_ok\<close> says that the
  inverse dictionary mirrors the forward one entry by entry.
\<close>

definition forward_ok :: "Vocabulary \<Rightarrow> bool" where
  "forward_ok v \<longleftrightarrow>
     map snd (token_to_idx v) = map int [0..<length (token_to_idx v)] \<and>
     distinct (map fst (token_to_idx v)) \<and>
     (if add_unk v then map_of (token_to_idx v) (unk_token v) = Some (unk_index v)
      else unk_index v = - 1)"

definition inverse_ok :: "Vocabulary \<Rightarrow> bool" where
  "inverse_ok v \<longleftrightarrow>
     idx_to_token v = map (\<lambda>(token, idx). (IntKey idx, token)) (token_to_idx v)"

subsection \<open>SurnameVectorizer\<close>

record SurnameVectorizer =
  surname_vocab :: Vocabulary
  nationality_vocab :: Vocabulary

text \<open>
  \<^verbatim>\<open>one_hot[i] = x\<close> on a one-dimensional numpy array: a negative index counts from
  the end, an index outside the array raises \<^verbatim>\<open>IndexError\<close>.
\<close>

definition np_setitem :: "real list \<Rightarrow> int \<Rightarrow> real \<Rightarrow> py_error + real list" where
  "np_setitem a i x =
     (let n = int (length a); j = (if i < 0 then n + i else i)
      in if 0 \<le> j \<and> j < n then Inr (a[nat j := x]) else Inl IndexError)"

text \<open>
  The loop \<^verbatim>\<open>for token in surname: one_hot[vocab.lookup_token(token)] = 1\<close>; a token is
  a one-character string.
\<close>

fun vectorize_loop :: "Vocabulary \<Rightarrow> string \<Rightarrow> real list \<Rightarrow> py_error + real list" where
  "vectorize_loop vocab [] one_hot = Inr one_hot"
| "vectorize_loop vocab (token # rest) one_hot =
     (case lookup_token vocab [token] of
        Inl e \<Rightarrow> Inl e
      | Inr i \<Rightarrow>
          (case np_setitem one_hot i 1 of
             Inl e \<Rightarrow> Inl e
           | Inr one_hot1 \<Rightarrow> vectorize_loop vocab rest one_hot1))"

definition vectorize :: "SurnameVectorizer \<Rightarrow> string \<Rightarrow> py_error + real list" where
  "vectorize vz surname_arg =
     (let vocab = surname_vocab vz;
          one_hot = replicate (len_vocab vocab) 0
      in vectorize_loop vocab surname_arg one_hot)"

record row =
  surname :: string
  nationality :: string
  split :: string

text \<open>
  \<^verbatim>\<open>from_dataframe\<close>: one pass over the rows; every letter of the surname goes into the
  surname vocabulary (\<^verbatim>\<open>Vocabulary(unk_token="@")\<close>), the nationality into the
  nationality vocabulary (\<^verbatim>\<open>Vocabulary(add_unk=False)\<close>).
\<close>

definition from_dataframe :: "row list \<Rightarrow> SurnameVectorizer" where
  "from_dataframe df =
     (let sv0 = Vocabulary_init None True ''@'';
          nv0 = Vocabulary_init None False ''<UNK>'';
          (sv, nv) =
            foldl (\<lambda>(sv, nv) r.
                     (foldl (\<lambda>v letter. snd (add_token v [letter])) sv (surname r),
                      snd (add_token nv (nationality r))))
              (sv0, nv0) df
      in \<lparr>surname_vocab = sv, nationality_vocab = nv\<rparr>)"

record vectorizer_contents =
  c_surname_vocab :: contents
  c_nationality_vocab :: contents

definition vectorizer_to_serializable :: "SurnameVectorizer \<Rightarrow> vectorizer_contents" where
  "vectorizer_to_serializable vz =
     \<lparr>c_surname_vocab = to_serializable (surname_vocab vz),
      c_nationality_vocab = to_serializable (nationality_vocab vz)\<rparr>"

definition vectorizer_from_serializable :: "vectorizer_contents \<Rightarrow> SurnameVectorizer" where
  "vectorizer_from_serializable c =
     \<lparr>surname_vocab = from_serializable (c_surname_vocab c),
      nationality_vocab = from_serializable (c_nationality_vocab c)\<rparr>"

subsection \<open>SurnameDataset\<close>

record SurnameDataset =
  surname_df :: "row list"
  vectorizer :: SurnameVectorizer
  train_df :: "row list"
  train_size :: nat
  val_df :: "row list"
  validation_size :: nat
  test_df :: "row list"
  test_size :: nat
  lookup_dict :: "(string \<times> row list \<times> nat) list"
  target_split :: string
  target_df :: "row list"
  target_size :: nat
  class_weights :: "real list"

text \<open>
  \<^verbatim>\<open>set_split(self, split="train")\<close>: \<open>None\<close> is the call without argument. The name is
  stored before the dictionary is read, so after a \<^verbatim>\<open>KeyError\<close> the object keeps the new
  name with the old view; the result is the object and the exception raised, if any.
\<close>

definition set_split :: "SurnameDataset \<Rightarrow> string option \<Rightarrow> SurnameDataset \<times> py_error option" where
  "set_split ds split_arg =
     (let name = (case split_arg of None \<Rightarrow> ''train'' | Some s \<Rightarrow> s);
          ds1 = ds\<lparr>target_split := name\<rparr>
      in case map_of (lookup_dict ds1) name of
           None \<Rightarrow> (ds1, Some KeyError)
         | Some (df, n) \<Rightarrow> (ds1\<lparr>target_df := df, target_size := n\<rparr>, None))"

text \<open>
  \<^verbatim>\<open>Series.value_counts().to_dict()\<close> of pandas: every distinct value with the number of
  its occurrences, most frequent first. The order among equal counts is left open by pandas;
  here it is the order of first occurrence.
\<close>

definition value_counts :: "string list \<Rightarrow> (string \<times> nat) list" where
  "value_counts xs =
     sort_key (\<lambda>(x, c). - int c) (map (\<lambda>x. (x, count_list xs x)) (rev (remdups (rev xs))))"

fun mapM_err :: "('a \<Rightarrow> py_error + 'b) \<Rightarrow> 'a list \<Rightarrow> py_error + 'b list" where
  "mapM_err f [] = Inr []"
| "mapM_err f (x # xs) =
     (case f x of
        Inl e \<Rightarrow> Inl e
      | Inr y \<Rightarrow> (case mapM_err f xs of Inl e \<Rightarrow> Inl e | Inr ys \<Rightarrow> Inr (y # ys)))"

text \<open>
  \<^verbatim>\<open>sorted(items, key=f)\<close>: the key of every item is computed first, in order (an
  exception of \<^verbatim>\<open>f\<close> ends the call), then the items are sorted stably by their keys.
\<close>

definition sorted_py :: "('a \<Rightarrow> py_error + int) \<Rightarrow> 'a list \<Rightarrow> py_error + 'a list" where
  "sorted_py f items =
     (case mapM_err f items of
        Inl e \<Rightarrow> Inl e
      | Inr keys \<Rightarrow> Inr (map snd (sort_key fst (zip keys items))))"

text \<open>
  \<^verbatim>\<open>SurnameDataset.__init__\<close>. The attributes \<^verbatim>\<open>_target_split\<close>, \<^verbatim>\<open>_target_df\<close>,
  \<^verbatim>\<open>_target_size\<close> and \<^verbatim>\<open>class_weights\<close> do not exist before the constructor assigns
  them; the record holds empty values until then. \<^verbatim>\<open>sort_key\<close> raises \<^verbatim>\<open>KeyError\<close> for
  a nationality that the vectorizer's nationality vocabulary does not hold.
\<close>

definition SurnameDataset_init :: "row list \<Rightarrow> SurnameVectorizer \<Rightarrow> py_error + SurnameDataset" where
  "SurnameDataset_init df vz =
     (let train = filter (\<lambda>r. split r = ''train'') df;
          val = filter (\<lambda>r. split r = ''val'') df;
          test = filter (\<lambda>r. split r = ''test'') df;
          ds0 = \<lparr>surname_df = df, vectorizer = vz,
                 train_df = train, train_size = length train,
                 val_df = val, validation_size = length val,
                 test_df = test, test_size = length test,
                 lookup_dict = [(''train'', (train, length train)),
                                (''val'', (val, length val)),
                                (''test'', (test, length test))],
                 target_split = [], target_df = [], target_size = 0,
                 class_weights = []\<rparr>;
          (ds1, exc) = set_split ds0 (Some ''train'')
      in case exc of
           Some e \<Rightarrow> Inl e
         | None \<Rightarrow>
             (let class_counts = value_counts (map nationality df)
              in case sorted_py (\<lambda>item. lookup_token (nationality_vocab (vectorizer ds1)) (fst item))
                        class_counts of
                   Inl e \<Rightarrow> Inl e
                 | Inr sorted_counts \<Rightarrow>
                     (let frequencies = map snd sorted_counts
                      in Inr (ds1\<lparr>class_weights := map (\<lambda>c. 1 / real c) frequencies\<rparr>))))"

text \<open>
  \<^verbatim>\<open>load_dataset_and_make_vectorizer\<close>, from the rows that \<^verbatim>\<open>pd.read_csv\<close> returned: the
  vectorizer is built from the training rows, the dataset from all rows.
\<close>

definition load_dataset_and_make_vectorizer :: "row list \<Rightarrow> py_error + SurnameDataset" where
  "load_dataset_and_make_vectorizer df =
     (let train_surname_df = filter (\<lambda>r. split r = ''train'') df
      in SurnameDataset_init df (from_dataframe train_surname_df))"

definition len_dataset :: "SurnameDataset \<Rightarrow> nat" where
  "len_dataset ds = target_size ds"

text \<open>\<^verbatim>\<open>df.iloc[index]\<close>: negative positions count from the end, others raise.\<close>

definition iloc :: "'a list \<Rightarrow> int \<Rightarrow> py_error + 'a" where
  "iloc df i =
     (let n = int (length df); j = (if i < 0 then n + i else i)
      in if 0 \<le> j \<and> j < n then Inr (df ! nat j) else Inl IndexError)"

definition getitem :: "SurnameDataset \<Rightarrow> int \<Rightarrow> py_error + (real list \<times> int)" where
  "getitem ds index =
     (case iloc (target_df ds) index of
        Inl e \<Rightarrow> Inl e
      | Inr r \<Rightarrow>
          (case vectorize (vectorizer ds) (surname r) of
             Inl e \<Rightarrow> Inl e
           | Inr surname_vector \<Rightarrow>
               (case lookup_token (nationality_vocab (vectorizer ds)) (nationality r) of
                  Inl e \<Rightarrow> Inl e
                | Inr nationality_index \<Rightarrow> Inr (surname_vector, nationality_index))))"

text \<open>\<^verbatim>\<open>len(self) // batch_size\<close>: floor division of Python integers.\<close>

definition get_num_batches :: "SurnameDataset \<Rightarrow> int \<Rightarrow> py_error + int" where
  "get_num_batches ds batch_size =
     (if batch_size = 0 then Inl ZeroDivisionError
      else Inr (int (len_dataset ds) div batch_size))"

subsection \<open>Training state and early stopping\<close>

record Args =
  early_stopping_criteria :: int
  learning_rate :: real
  model_state_file :: string

record train_state =
  stop_early :: bool
  early_stopping_step :: int
  early_stopping_best_val :: real
  ts_learning_rate :: real
  epoch_index :: int
  train_loss :: "real list"
  train_acc :: "real list"
  val_loss :: "real list"
  val_acc :: "real list"
  test_loss :: real
  test_acc :: real
  model_filename :: string

definition make_train_state :: "Args \<Rightarrow> train_state" where
  "make_train_state args =
     \<lparr>stop_early = False,
      early_stopping_step = 0,
      early_stopping_best_val = 100000000,
      ts_learning_rate = learning_rate args,
      epoch_index = 0,
      train_loss = [],
      train_acc = [],
      val_loss = [],
      val_acc = [],
      test_loss = - 1,
      test_acc = - 1,
      model_filename = model_state_file args\<rparr>"

text \<open>
  \<^verbatim>\<open>update_train_state(args, model, train_state)\<close>. The files written by
  \<^verbatim>\<open>torch.save\<close> are a map from file name to the saved parameters \<open>'m\<close>. The
  unpacking \<^verbatim>\<open>loss_tm1, loss_t = train_state['val_loss'][-2:]\<close> raises \<^verbatim>\<open>ValueError\<close>
  when the list has fewer than two entries. No branch assigns
  \<^verbatim>\<open>early_stopping_best_val\<close>.
\<close>

definition update_train_state ::
  "Args \<Rightarrow> 'm \<Rightarrow> train_state \<Rightarrow> (string \<rightharpoonup> 'm) \<Rightarrow> py_error + (train_state \<times> (string \<rightharpoonup> 'm))" where
  "update_train_state args model ts files =
     (if epoch_index ts = 0
      then Inr (ts\<lparr>stop_early := False\<rparr>, files(model_filename ts \<mapsto> model))
      else if epoch_index ts \<ge> 1
      then (if length (val_loss ts) < 2 then Inl ValueError
            else
              (let loss_t = last (val_loss ts);
                   (ts1, files1) =
                     (if loss_t \<ge> early_stopping_best_val ts
                      then (ts\<lparr>early_stopping_step := early_stopping_step ts + 1\<rparr>, files)
                      else
                        (let files2 = (if loss_t < early_stopping_best_val ts
                                       then files(model_filename ts \<mapsto> model)
                                       else files)
                         in (ts\<lparr>early_stopping_step := 0\<rparr>, files2)))
               in Inr (ts1\<lparr>stop_early :=
                             early_stopping_step ts1 \<ge> early_stopping_criteria args\<rparr>,
                       files1)))
      else Inr (ts, files))"

text \<open>
  What one epoch of the training cell hands to the bookkeeping: the parameters of the
  classifier after the training phase and the running losses and accuracies. The tensor
  engine, the optimizer and the learning-rate scheduler are outside this model; the
  scheduler does not touch \<^verbatim>\<open>train_state\<close>.
\<close>

record 'm epoch_outcome =
  o_model :: 'm
  o_train_loss :: real
  o_train_acc :: real
  o_val_loss :: real
  o_val_acc :: real

text \<open>
  The loop \<^verbatim>\<open>for epoch_index in range(args.num_epochs)\<close> of the training cell, over the
  epochs paired with their indices; \<^verbatim>\<open>break\<close> on \<^verbatim>\<open>stop_early\<close>.
\<close>

fun training_loop ::
  "Args \<Rightarrow> (nat \<times> 'm epoch_outcome) list \<Rightarrow> train_state \<times> (string \<rightharpoonup> 'm) \<Rightarrow>
     py_error + (train_state \<times> (string \<rightharpoonup> 'm))" where
  "training_loop args [] st = Inr st"
| "training_loop args ((e, out) # rest) (ts, files) =
     (let ts1 = ts\<lparr>epoch_index := int e\<rparr>;
          ts2 = ts1\<lparr>train_loss := train_loss ts1 @ [o_train_loss out],
                    train_acc := train_acc ts1 @ [o_train_acc out]\<rparr>;
          ts3 = ts2\<lparr>val_loss := val_loss ts2 @ [o_val_loss out],
                    val_acc := val_acc ts2 @ [o_val_acc out]\<rparr>
      in case update_train_state args (o_model out) ts3 files of
           Inl err \<Rightarrow> Inl err
         | Inr (ts4, files4) \<Rightarrow>
             if stop_early ts4 then Inr (ts4, files4)
             else training_loop args rest (ts4, files4))"

definition run_training ::
  "Args \<Rightarrow> 'm epoch_outcome list \<Rightarrow> py_error + (train_state \<times> (string \<rightharpoonup> 'm))" where
  "run_training args outs =
     training_loop args (zip [0..<length outs] outs) (make_train_state args, Map.empty)"

text \<open>
  An epoch of which only the validation loss matters: the parameters are tagged with the
  epoch number.
\<close>

definition epoch_with_val_loss :: "nat \<Rightarrow> real \<Rightarrow> nat epoch_outcome" where
  "epoch_with_val_loss e l =
     \<lparr>o_model = e, o_train_loss = 0, o_train_acc = 0, o_val_loss = l, o_val_acc = 0\<rparr>"

subsection \<open>Inference\<close>

text \<open>
  \<^verbatim>\<open>torch.topk(input, k)\<close> belongs to the tensor library, not to the notebook, so the
  functions below take it as a parameter. \<open>topk_contract\<close> is what the library documents
  for the single row of the prediction: a \<^verbatim>\<open>RuntimeError\<close> when \<open>k\<close> is out of range,
  otherwise \<open>k\<close> distinct positions with their entries, in descending order of the
  entries, none of them smaller than an entry left out. The order among equal entries is
  left open.
\<close>

type_synonym topk_fun = "real list \<Rightarrow> int \<Rightarrow> py_error + (real list \<times> nat list)"

definition topk_contract :: "topk_fun \<Rightarrow> bool" where
  "topk_contract topk \<longleftrightarrow>
     (\<forall>xs k.
        if k < 0 \<or> int (length xs) < k then topk xs k = Inl RuntimeError
        else (\<exists>vals idxs.
                topk xs k = Inr (vals, idxs) \<and>
                length idxs = nat k \<and> distinct idxs \<and> set idxs \<subseteq> {0..<length xs} \<and>
                vals = map (\<lambda>i. xs ! i) idxs \<and>
                sorted_wrt (\<lambda>a b. a \<ge> b) vals \<and>
                (\<forall>j<length xs. j \<notin> set idxs \<longrightarrow> (\<forall>v\<in>set vals. xs ! j \<le> v))))"

text \<open>
  One function that meets the contract, for evaluating examples: equal entries keep the
  order of their positions.
\<close>

definition topk_by_position :: topk_fun where
  "topk_by_position xs k =
     (if k < 0 \<or> int (length xs) < k then Inl RuntimeError
      else (let ranked = take (nat k) (sort_key (\<lambda>(p, i). - p) (zip xs [0..<length xs]))
            in Inr (map fst ranked, map snd ranked)))"

text \<open>
  \<^verbatim>\<open>predict_topk_nationality\<close>. The first argument stands for \<^verbatim>\<open>torch.topk\<close>. The
  classifier with \<^verbatim>\<open>apply_softmax=True\<close> is a function from the input vector to the
  vector of class probabilities. A result \<^verbatim>\<open>{'nationality': n, 'probability': p}\<close> is the
  pair \<open>(n, p)\<close>.
\<close>

definition predict_topk_nationality ::
  "topk_fun \<Rightarrow> string \<Rightarrow> (real list \<Rightarrow> real list) \<Rightarrow> SurnameVectorizer \<Rightarrow> int \<Rightarrow>
     py_error + (string \<times> real) list" where
  "predict_topk_nationality torch_topk name classifier vz k =
     (case vectorize vz name of
        Inl e \<Rightarrow> Inl e
      | Inr vectorized_name \<Rightarrow>
          (let prediction_vector = classifier vectorized_name
           in case torch_topk prediction_vector k of
                Inl e \<Rightarrow> Inl e
              | Inr (probability_values, indices) \<Rightarrow>
                  mapM_err (\<lambda>(prob_value, index).
                              case lookup_index (nationality_vocab vz) (int index) of
                                Inl e \<Rightarrow> Inl e
                              | Inr nat_name \<Rightarrow> Inr (nat_name, prob_value))
                    (zip probability_values indices)))"

text \<open>
  The notebook cell around it: the number typed by the user is cut down to the number of
  nationalities before the call.
\<close>

definition topk_cell ::
  "topk_fun \<Rightarrow> string \<Rightarrow> int \<Rightarrow> (real list \<Rightarrow> real list) \<Rightarrow> SurnameVectorizer \<Rightarrow>
     py_error + (string \<times> real) list" where
  "topk_cell torch_topk new_surname k_input classifier vz =
     (let k = (if k_input > int (len_vocab (nationality_vocab vz))
               then int (len_vocab (nationality_vocab vz)) else k_input)
      in predict_topk_nationality torch_topk new_surname classifier vz k)"

subsection \<open>Example data\<close>

text \<open>A small collection with two nationalities and all three splits, and training
  collections of a given size.\<close>

definition example_rows :: "row list" where
  "example_rows =
     [\<lparr>surname = ''ab'', nationality = ''X'', split = ''train''\<rparr>,
      \<lparr>surname = ''ca'', nationality = ''Y'', split = ''train''\<rparr>,
      \<lparr>surname = ''ab'', nationality = ''X'', split = ''val''\<rparr>,
      \<lparr>surname = ''cb'', nationality = ''Y'', split = ''test''\<rparr>,
      \<lparr>surname = ''cb'', nationality = ''Y'', split = ''test''\<rparr>]"

definition rows_of_size :: "nat \<Rightarrow> row list" where
  "rows_of_size n = replicate n \<lparr>surname = ''ab'', nationality = ''X'', split = ''train''\<rparr>"

section \<open>Properties of the vocabulary\<close>

lemma update_fresh: "k \<notin> fst ` set al \<Longrightarrow> AList.update k v al = al @ [(k, v)]"
  by (induction al) auto

lemma map_of_None_fresh: "map_of al k = None \<Longrightarrow> k \<notin> fst ` set al"
  by (simp add: map_of_eq_None_iff)

lemma forward_ok_range:
  assumes "forward_ok v" "map_of (token_to_idx v) t = Some i"
  shows "0 \<le> i \<and> i < int (length (token_to_idx v))"
proof -
  from assms(2) have "i \<in> set (map snd (token_to_idx v))"
    by (metis map_of_SomeD set_zip_rightD zip_map_fst_snd)
  with assms(1) have "i \<in> set (map int [0..<length (token_to_idx v)])"
    by (simp add: forward_ok_def)
  then show ?thesis by auto
qed

lemma add_token_forward_ok:
  assumes "forward_ok v"
  shows "forward_ok (snd (add_token v t))"
proof (cases "map_of (token_to_idx v) t")
  case (Some i)
  then show ?thesis using assms by (simp add: add_token_def)
next
  case None
  then have fresh: "t \<notin> fst ` set (token_to_idx v)" by (rule map_of_None_fresh)
  have neq: "add_unk v \<Longrightarrow> unk_token v \<noteq> t"
    using assms None by (auto simp: forward_ok_def)
  show ?thesis
    using assms None fresh neq
    by (auto simp: add_token_def Let_def forward_ok_def update_fresh)
qed

lemma add_token_inverse_ok:
  assumes "forward_ok v" "inverse_ok v"
  shows "inverse_ok (snd (add_token v t))"
proof (cases "map_of (token_to_idx v) t")
  case (Some i)
  then show ?thesis using assms by (simp add: add_token_def)
next
  case None
  then have fresh: "t \<notin> fst ` set (token_to_idx v)" by (rule map_of_None_fresh)
  have "IntKey (int (length (token_to_idx v))) \<notin> fst ` set (idx_to_token v)"
  proof
    assume "IntKey (int (length (token_to_idx v))) \<in> fst ` set (idx_to_token v)"
    then obtain t' where "(t', int (length (token_to_idx v))) \<in> set (token_to_idx v)"
      using assms(2) by (auto simp: inverse_ok_def)
    then have "map_of (token_to_idx v) t' = Some (int (length (token_to_idx v)))"
      using assms(1) by (simp add: forward_ok_def)
    from forward_ok_range [OF assms(1) this] show False by simp
  qed
  then show ?thesis
    using assms None fresh
    by (simp add: add_token_def Let_def inverse_ok_def update_fresh)
qed

lemma Vocabulary_init_None_ok:
  "forward_ok (Vocabulary_init None au ut) \<and> inverse_ok (Vocabulary_init None au ut)"
  by (simp add: Vocabulary_init_def Let_def add_token_def forward_ok_def inverse_ok_def)

lemma add_token_flags:
  "add_unk (snd (add_token v t)) = add_unk v \<and> unk_token (snd (add_token v t)) = unk_token v
   \<and> unk_index (snd (add_token v t)) = unk_index v"
  by (simp add: add_token_def Let_def split: option.splits)

lemma add_many_ok:
  "forward_ok v \<Longrightarrow> inverse_ok v \<Longrightarrow>
     forward_ok (snd (add_many v ts)) \<and> inverse_ok (snd (add_many v ts))"
proof (induction ts arbitrary: v)
  case Nil
  then show ?case by simp
next
  case (Cons t ts)
  from Cons.prems have "forward_ok (snd (add_token v t))" "inverse_ok (snd (add_token v t))"
    by (simp_all add: add_token_forward_ok add_token_inverse_ok)
  from Cons.IH [OF this] show ?case
    by (simp add: case_prod_beta Let_def)
qed

text \<open>What the two lookups do on a vocabulary that was filled by \<^verbatim>\<open>add_token\<close> only.\<close>

lemma lookup_token_miss_unk:
  assumes "forward_ok v" "add_unk v" "map_of (token_to_idx v) t = None"
  shows "lookup_token v t = Inr (unk_index v)"
proof -
  from assms(1,2) have "map_of (token_to_idx v) (unk_token v) = Some (unk_index v)"
    by (simp add: forward_ok_def)
  from forward_ok_range [OF assms(1) this] have "0 \<le> unk_index v" by simp
  with assms(3) show ?thesis by (simp add: lookup_token_def)
qed

lemma lookup_token_miss_no_unk:
  assumes "forward_ok v" "\<not> add_unk v" "map_of (token_to_idx v) t = None"
  shows "lookup_token v t = Inl KeyError"
  using assms by (simp add: lookup_token_def forward_ok_def)

lemma lookup_token_hit:
  assumes "map_of (token_to_idx v) t = Some i"
  shows "lookup_token v t = Inr i"
  using assms by (simp add: lookup_token_def)

lemma lookup_index_inverse_ok:
  assumes "forward_ok v" "inverse_ok v"
  shows "lookup_index v i =
           (if 0 \<le> i \<and> i < int (len_vocab v) then Inr (fst (token_to_idx v ! nat i))
            else Inl KeyError)"
proof -
  let ?m = "token_to_idx v"
  have inv: "idx_to_token v = zip (map (IntKey \<circ> int) [0..<length ?m]) (map fst ?m)"
  proof -
    have "idx_to_token v = zip (map IntKey (map snd ?m)) (map fst ?m)"
      using assms(2) by (simp add: inverse_ok_def zip_map_map case_prod_beta zip_same_conv_map)
    also have "map snd ?m = map int [0..<length ?m]"
      using assms(1) by (simp add: forward_ok_def)
    finally show ?thesis by simp
  qed
  show ?thesis
  proof (cases "0 \<le> i \<and> i < int (length ?m)")
    case True
    then have n: "nat i < length ?m" and i: "int (nat i) = i" by auto
    have "distinct (map (IntKey \<circ> int) [0..<length ?m])"
      by (simp add: distinct_map inj_on_def)
    then have "map_of (zip (map (IntKey \<circ> int) [0..<length ?m]) (map fst ?m))
                 (map (IntKey \<circ> int) [0..<length ?m] ! nat i) = Some (map fst ?m ! nat i)"
      using n by (intro map_of_zip_nth) simp_all
    then have "map_of (idx_to_token v) (IntKey i) = Some (fst (?m ! nat i))"
      using n i by (simp add: inv)
    with True show ?thesis by (simp add: lookup_index_def len_vocab_def)
  next
    case False
    have "IntKey i \<notin> set (map (IntKey \<circ> int) [0..<length ?m])"
      using False by auto
    then have "map_of (idx_to_token v) (IntKey i) = None"
      unfolding inv by (simp add: map_of_zip_is_None)
    with False show ?thesis by (simp add: lookup_index_def len_vocab_def)
  qed
qed

text \<open>
  The inverse dictionary that \<^verbatim>\<open>__init__\<close> builds from a given forward dictionary has no
  integer key at all.
\<close>

lemma init_comprehension_keys:
  "fst ` set (foldl (\<lambda>d (token, idx). AList.update BuiltinId token d) acc t2i)
     \<subseteq> insert BuiltinId (fst ` set acc)"
proof (induction t2i arbitrary: acc)
  case Nil
  then show ?case by auto
next
  case (Cons p t2i)
  obtain token idx where p: "p = (token, idx)" by (cases p)
  have "fst ` set (foldl (\<lambda>d (token, idx). AList.update BuiltinId token d)
                     (AList.update BuiltinId token acc) t2i)
          \<subseteq> insert BuiltinId (fst ` set (AList.update BuiltinId token acc))"
    by (rule Cons.IH)
  then show ?case by (auto simp: p dom_update)
qed

lemma init_comprehension_no_int:
  "map_of (foldl (\<lambda>d (token, idx). AList.update BuiltinId token d) [] t2i) (IntKey i) = None"
proof -
  have "IntKey i \<notin> fst ` set (foldl (\<lambda>d (token, idx). AList.update BuiltinId token d) [] t2i)"
    using init_comprehension_keys [of "[]" t2i] by auto
  then show ?thesis by (simp add: map_of_eq_None_iff)
qed

lemma roundtrip_token_to_idx:
  assumes "forward_ok v"
  shows "token_to_idx (from_serializable (to_serializable v)) = token_to_idx v \<and>
         unk_index (from_serializable (to_serializable v)) = unk_index v \<and>
         add_unk (from_serializable (to_serializable v)) = add_unk v \<and>
         unk_token (from_serializable (to_serializable v)) = unk_token v"
  using assms
  by (simp add: from_serializable_def to_serializable_def Vocabulary_init_def Let_def add_token_def
      forward_ok_def)

lemma roundtrip_lookup_token:
  assumes "forward_ok v"
  shows "lookup_token (from_serializable (to_serializable v)) t = lookup_token v t"
  using roundtrip_token_to_idx [OF assms] by (auto simp: lookup_token_def split: option.splits)

lemma roundtrip_lookup_index_lost:
  assumes "forward_ok v"
  shows "lookup_index (from_serializable (to_serializable v)) i = Inl KeyError"
  using assms
  by (simp add: from_serializable_def to_serializable_def Vocabulary_init_def Let_def add_token_def
      forward_ok_def lookup_index_def init_comprehension_no_int)

lemma roundtrip_forward_ok:
  assumes "forward_ok v"
  shows "forward_ok (from_serializable (to_serializable v))"
  using roundtrip_token_to_idx [OF assms] assms by (simp add: forward_ok_def)

lemma forward_ok_inj:
  assumes "forward_ok v" "map_of (token_to_idx v) a = Some k" "map_of (token_to_idx v) b = Some k"
  shows "a = b"
proof -
  have "distinct (map snd (token_to_idx v))"
    using assms(1) by (simp add: forward_ok_def distinct_map)
  then have inj: "inj_on snd (set (token_to_idx v))" by (simp add: distinct_map)
  have "(a, k) \<in> set (token_to_idx v)" "(b, k) \<in> set (token_to_idx v)"
    using assms(2,3) by (simp_all add: map_of_SomeD)
  with inj_onD [OF inj, of "(a, k)" "(b, k)"] show ?thesis by simp
qed

lemma lookup_token_no_unk:
  assumes "forward_ok v" "\<not> add_unk v"
  shows "lookup_token v t =
           (case map_of (token_to_idx v) t of Some i \<Rightarrow> Inr i | None \<Rightarrow> Inl KeyError)"
  using assms by (simp add: lookup_token_def forward_ok_def)

lemma lookup_token_in_range:
  assumes "forward_ok v" "add_unk v"
  shows "\<exists>j. lookup_token v t = Inr (int j) \<and> j < len_vocab v"
proof -
  from assms have u: "map_of (token_to_idx v) (unk_token v) = Some (unk_index v)"
    by (simp add: forward_ok_def)
  from forward_ok_range [OF assms(1) u]
  have ur: "0 \<le> unk_index v" "unk_index v < int (length (token_to_idx v))" by simp_all
  show ?thesis
  proof (cases "map_of (token_to_idx v) t")
    case None
    then have "lookup_token v t = Inr (int (nat (unk_index v)))"
      using ur by (simp add: lookup_token_def)
    moreover have "nat (unk_index v) < len_vocab v"
      using ur by (simp add: len_vocab_def)
    ultimately show ?thesis by blast
  next
    case (Some i)
    from forward_ok_range [OF assms(1) Some]
    have "0 \<le> i" "i < int (length (token_to_idx v))" by simp_all
    then have "lookup_token v t = Inr (int (nat i))" "nat i < len_vocab v"
      using Some ur by (simp_all add: lookup_token_def len_vocab_def)
    then show ?thesis by blast
  qed
qed

lemma add_token_keys:
  "fst ` set (token_to_idx (snd (add_token v t))) = insert t (fst ` set (token_to_idx v))"
proof (cases "map_of (token_to_idx v) t")
  case None
  then show ?thesis by (simp add: add_token_def Let_def dom_update)
next
  case (Some i)
  then have "t \<in> fst ` set (token_to_idx v)"
    by (metis domI dom_map_of_conv_image_fst)
  then show ?thesis using Some by (auto simp: add_token_def)
qed

section \<open>Claims about the vocabulary\<close>

text \<open>
  C9. Registering a token is idempotent: a second \<^verbatim>\<open>add_token(t)\<close> returns the index of
  the first one and leaves the vocabulary as it is, \<^verbatim>\<open>lookup_token(t)\<close> after
  \<^verbatim>\<open>add_token(t)\<close> is that index, and a token that was not in the forward dictionary
  gets the index \<^verbatim>\<open>len(forward_map)\<close>, which is stored in the forward and in the
  inverse dictionary and the size grows by one. In a vocabulary whose indices were all
  assigned by \<^verbatim>\<open>add_token\<close> this index is carried by no other token.
\<close>

theorem add_token_idempotent:
  "fst (add_token (snd (add_token v t)) t) = fst (add_token v t) \<and>
   snd (add_token (snd (add_token v t)) t) = snd (add_token v t) \<and>
   lookup_token (snd (add_token v t)) t = Inr (fst (add_token v t)) \<and>
   (map_of (token_to_idx v) t = None \<longrightarrow>
      fst (add_token v t) = int (len_vocab v) \<and>
      map_of (token_to_idx (snd (add_token v t))) t = Some (int (len_vocab v)) \<and>
      map_of (idx_to_token (snd (add_token v t))) (IntKey (int (len_vocab v))) = Some t \<and>
      len_vocab (snd (add_token v t)) = len_vocab v + 1 \<and>
      (forward_ok v \<longrightarrow> int (len_vocab v) \<notin> snd ` set (token_to_idx v)))"
proof (cases "map_of (token_to_idx v) t")
  case (Some i)
  then show ?thesis by (simp add: add_token_def lookup_token_def)
next
  case None
  then have fresh: "t \<notin> fst ` set (token_to_idx v)" by (rule map_of_None_fresh)
  have unused: "int (len_vocab v) \<notin> snd ` set (token_to_idx v)" if ok: "forward_ok v"
  proof
    have eq: "map snd (token_to_idx v) = map int [0..<length (token_to_idx v)]"
      using ok by (simp add: forward_ok_def)
    assume "int (len_vocab v) \<in> snd ` set (token_to_idx v)"
    then have "int (len_vocab v) \<in> set (map snd (token_to_idx v))" by simp
    with eq have "int (len_vocab v) \<in> set (map int [0..<length (token_to_idx v)])"
      by metis
    then show False by (auto simp: len_vocab_def)
  qed
  define i where "i = int (length (token_to_idx v))"
  define v1 where "v1 = v\<lparr>token_to_idx := AList.update t i (token_to_idx v),
                          idx_to_token := AList.update (IntKey i) t (idx_to_token v)\<rparr>"
  have first: "add_token v t = (i, v1)"
    using None by (simp add: add_token_def Let_def i_def v1_def)
  have hit: "map_of (token_to_idx v1) t = Some i"
    by (simp add: v1_def update_conv')
  have inv: "map_of (idx_to_token v1) (IntKey i) = Some t"
    by (simp add: v1_def update_conv')
  have again: "add_token v1 t = (i, v1)"
    using hit by (simp add: add_token_def)
  have look: "lookup_token v1 t = Inr i"
    using hit by (simp add: lookup_token_def)
  have size: "len_vocab v1 = len_vocab v + 1"
    using fresh by (simp add: v1_def len_vocab_def update_fresh)
  show ?thesis
    using first again look hit inv size unused
    by (simp add: i_def len_vocab_def)
qed

theorem add_token_idempotent_witness:
  "map_of (token_to_idx (Vocabulary_init None True ''<UNK>'')) ''a'' = None \<and>
   forward_ok (Vocabulary_init None True ''<UNK>'') \<and>
   fst (add_token (Vocabulary_init None True ''<UNK>'') ''a'') = 1 \<and>
   fst (add_token (snd (add_token (Vocabulary_init None True ''<UNK>'') ''a'')) ''a'') = 1 \<and>
   lookup_token (snd (add_token (Vocabulary_init None True ''<UNK>'') ''a'')) ''a'' = Inr 1"
  using add_token_idempotent [of "Vocabulary_init None True ''<UNK>''" "''a''"]
  by (simp add: Vocabulary_init_def Let_def add_token_def forward_ok_def len_vocab_def)

text \<open>
  C2. Serialization round trip, evaluated on the vocabulary \<^verbatim>\<open>Vocabulary()\<close> after
  \<^verbatim>\<open>add_token("a")\<close> and \<^verbatim>\<open>add_token("b")\<close>: the reloaded vocabulary answers
  \<^verbatim>\<open>lookup_token\<close> as the original does, but \<^verbatim>\<open>lookup_index\<close> raises \<^verbatim>\<open>KeyError\<close> on the
  indices 0, 1 and 2 that the original resolves to \<^verbatim>\<open><UNK>\<close>, \<^verbatim>\<open>a\<close> and \<^verbatim>\<open>b\<close>: the
  inverse dictionary of the reloaded object is \<^verbatim>\<open>{id: "b"}\<close>.
\<close>

theorem roundtrip_loses_lookup_index:
  "(let v = snd (add_token (snd (add_token (Vocabulary_init None True ''<UNK>'') ''a'')) ''b'');
        w = from_serializable (to_serializable v)
    in lookup_token v ''a'' = Inr 1 \<and> lookup_token w ''a'' = Inr 1 \<and>
       lookup_token v ''zz'' = Inr 0 \<and> lookup_token w ''zz'' = Inr 0 \<and>
       lookup_index v 0 = Inr ''<UNK>'' \<and> lookup_index w 0 = Inl KeyError \<and>
       lookup_index v 1 = Inr ''a'' \<and> lookup_index w 1 = Inl KeyError \<and>
       lookup_index v 2 = Inr ''b'' \<and> lookup_index w 2 = Inl KeyError \<and>
       idx_to_token w = [(BuiltinId, ''b'')])"
  by (simp add: Vocabulary_init_def add_token_def from_serializable_def to_serializable_def
      lookup_token_def lookup_index_def)

text \<open>
  C7. Lookup errors, evaluated on \<^verbatim>\<open>Vocabulary(token_to_idx={"a": 0, "b": 1},
  add_unk=False)\<close>, the object that \<^verbatim>\<open>from_serializable\<close> builds from a vocabulary
  file: \<^verbatim>\<open>lookup_token\<close> behaves as described (the index on a hit, \<^verbatim>\<open>KeyError\<close> on a miss
  without unknown token), but \<^verbatim>\<open>lookup_index\<close> raises \<^verbatim>\<open>KeyError\<close> for the indices 0 and
  1, which the forward dictionary assigns to \<^verbatim>\<open>a\<close> and \<^verbatim>\<open>b\<close>.
\<close>

theorem lookup_index_raises_on_assigned_index:
  "(let v = Vocabulary_init (Some [(''a'', 0), (''b'', 1)]) False ''<UNK>''
    in map_of (token_to_idx v) ''a'' = Some 0 \<and> map_of (token_to_idx v) ''b'' = Some 1 \<and>
       lookup_token v ''b'' = Inr 1 \<and> lookup_token v ''c'' = Inl KeyError \<and>
       lookup_index v 0 = Inl KeyError \<and> lookup_index v 1 = Inl KeyError)"
  by (simp add: Vocabulary_init_def Let_def lookup_token_def lookup_index_def)

section \<open>The vectorizer\<close>

lemma np_setitem_in_range:
  "j < length a \<Longrightarrow> np_setitem a (int j) x = Inr (a[j := x])"
  by (simp add: np_setitem_def Let_def)

lemma vectorize_loop_multi_hot:
  assumes "forward_ok v" "add_unk v" "length oh = len_vocab v"
  shows "\<exists>oh'. vectorize_loop v cs oh = Inr oh' \<and> length oh' = length oh \<and>
           (\<forall>i<length oh. oh' ! i =
              (if \<exists>c\<in>set cs. lookup_token v [c] = Inr (int i) then 1 else oh ! i))"
  using assms(3)
proof (induction cs arbitrary: oh)
  case Nil
  then show ?case by simp
next
  case (Cons c cs)
  from lookup_token_in_range [OF assms(1,2)] obtain j
    where j: "lookup_token v [c] = Inr (int j)" "j < len_vocab v" by blast
  then have set1: "np_setitem oh (int j) 1 = Inr (oh[j := 1])"
    using Cons.prems by (simp add: np_setitem_in_range)
  have "length (oh[j := 1]) = len_vocab v" using Cons.prems by simp
  from Cons.IH [OF this] obtain oh' where
    oh': "vectorize_loop v cs (oh[j := 1]) = Inr oh'" "length oh' = length oh"
      "\<forall>i<length oh. oh' ! i =
          (if \<exists>c\<in>set cs. lookup_token v [c] = Inr (int i) then 1 else (oh[j := 1]) ! i)"
    by auto
  have "vectorize_loop v (c # cs) oh = Inr oh'"
    using j set1 oh'(1) by simp
  moreover have "\<forall>i<length oh. oh' ! i =
      (if \<exists>c'\<in>set (c # cs). lookup_token v [c'] = Inr (int i) then 1 else oh ! i)"
  proof (intro allI impI)
    fix i assume i: "i < length oh"
    show "oh' ! i = (if \<exists>c'\<in>set (c # cs). lookup_token v [c'] = Inr (int i) then 1 else oh ! i)"
    proof (cases "i = j")
      case True
      then show ?thesis using oh'(3) i j by auto
    next
      case False
      then have "lookup_token v [c] \<noteq> Inr (int i)" using j by simp
      then show ?thesis using oh'(3) i False by auto
    qed
  qed
  ultimately show ?case using oh'(2) by blast
qed

lemma vectorize_multi_hot_aux:
  assumes "forward_ok (surname_vocab vz)" "add_unk (surname_vocab vz)"
  shows "\<exists>vec. vectorize vz s = Inr vec \<and> length vec = len_vocab (surname_vocab vz) \<and>
           (\<forall>i<length vec. vec ! i =
              (if \<exists>c\<in>set s. lookup_token (surname_vocab vz) [c] = Inr (int i) then 1 else 0))"
proof -
  let ?v = "surname_vocab vz"
  have "length (replicate (len_vocab ?v) (0::real)) = len_vocab ?v" by simp
  from vectorize_loop_multi_hot [OF assms this, of s]
  show ?thesis by (auto simp: vectorize_def Let_def)
qed

text \<open>
  The vocabularies that \<^verbatim>\<open>from_dataframe\<close> builds are filled by \<^verbatim>\<open>add_token\<close> only: both
  are well formed in both directions, the surname vocabulary has its unknown token, the
  nationality vocabulary has none and holds exactly the nationalities of the rows.
\<close>

lemma add_letters_ok:
  assumes "forward_ok v" "inverse_ok v"
  shows "forward_ok (foldl (\<lambda>v letter. snd (add_token v [letter])) v cs) \<and>
         inverse_ok (foldl (\<lambda>v letter. snd (add_token v [letter])) v cs) \<and>
         add_unk (foldl (\<lambda>v letter. snd (add_token v [letter])) v cs) = add_unk v"
  using assms
proof (induction cs arbitrary: v)
  case Nil
  then show ?case by simp
next
  case (Cons c cs)
  have "forward_ok (snd (add_token v [c]))" "inverse_ok (snd (add_token v [c]))"
    using Cons.prems by (simp_all add: add_token_forward_ok add_token_inverse_ok)
  from Cons.IH [OF this] show ?case by (simp add: add_token_flags)
qed

lemma from_dataframe_loop_ok:
  assumes "forward_ok sv" "inverse_ok sv" "forward_ok nv" "inverse_ok nv"
  shows "case foldl (\<lambda>(sv, nv) r.
                     (foldl (\<lambda>v letter. snd (add_token v [letter])) sv (surname r),
                      snd (add_token nv (nationality r))))
              (sv, nv) df of
           (sv', nv') \<Rightarrow>
             forward_ok sv' \<and> inverse_ok sv' \<and> add_unk sv' = add_unk sv \<and>
             forward_ok nv' \<and> inverse_ok nv' \<and> add_unk nv' = add_unk nv \<and>
             fst ` set (token_to_idx nv') = fst ` set (token_to_idx nv) \<union> nationality ` set df"
  using assms
proof (induction df arbitrary: sv nv)
  case Nil
  then show ?case by simp
next
  case (Cons r df)
  let ?sv = "foldl (\<lambda>v letter. snd (add_token v [letter])) sv (surname r)"
  let ?nv = "snd (add_token nv (nationality r))"
  have s: "forward_ok ?sv" "inverse_ok ?sv" "add_unk ?sv = add_unk sv"
    using add_letters_ok [OF Cons.prems(1,2)] by simp_all
  have n: "forward_ok ?nv" "inverse_ok ?nv" "add_unk ?nv = add_unk nv"
    using Cons.prems(3,4) by (simp_all add: add_token_forward_ok add_token_inverse_ok add_token_flags)
  from Cons.IH [OF s(1,2) n(1,2)] show ?case
    using s(3) n(3) by (auto simp: add_token_keys)
qed

lemma from_dataframe_ok:
  "forward_ok (surname_vocab (from_dataframe df)) \<and>
   inverse_ok (surname_vocab (from_dataframe df)) \<and>
   add_unk (surname_vocab (from_dataframe df)) \<and>
   forward_ok (nationality_vocab (from_dataframe df)) \<and>
   inverse_ok (nationality_vocab (from_dataframe df)) \<and>
   \<not> add_unk (nationality_vocab (from_dataframe df)) \<and>
   fst ` set (token_to_idx (nationality_vocab (from_dataframe df))) = nationality ` set df"
proof -
  let ?sv0 = "Vocabulary_init None True ''@''"
  let ?nv0 = "Vocabulary_init None False ''<UNK>''"
  have i: "forward_ok ?sv0" "inverse_ok ?sv0" "forward_ok ?nv0" "inverse_ok ?nv0"
    using Vocabulary_init_None_ok by simp_all
  have f: "add_unk ?sv0" "\<not> add_unk ?nv0" "token_to_idx ?nv0 = []"
    by (simp_all add: Vocabulary_init_def Let_def add_token_def)
  from from_dataframe_loop_ok [OF i, of df] f show ?thesis
    by (simp add: from_dataframe_def Let_def split: prod.splits)
qed

text \<open>
  C5. \<^verbatim>\<open>vectorize\<close> depends on the set of characters only. For a surname vocabulary
  whose indices were assigned by \<^verbatim>\<open>add_token\<close> and that has an unknown token (what
  \<^verbatim>\<open>from_dataframe\<close> builds and what a reload keeps, see \<open>from_dataframe_ok\<close> and
  \<open>roundtrip_forward_ok\<close>), \<^verbatim>\<open>vectorize\<close> returns a vector whose length is the size of
  the vocabulary, with 1 exactly at the positions \<^verbatim>\<open>lookup_token\<close> gives for the characters
  of the input and 0 elsewhere; two inputs with the same set of characters get the same
  vector, in particular \<^verbatim>\<open>"ab"\<close> and \<^verbatim>\<open>"ba"\<close>, \<^verbatim>\<open>"aab"\<close> and \<^verbatim>\<open>"ab"\<close>.
\<close>

theorem vectorize_multi_hot:
  assumes "forward_ok (surname_vocab vz)" "add_unk (surname_vocab vz)"
  shows "\<exists>vec. vectorize vz s = Inr vec \<and> length vec = len_vocab (surname_vocab vz) \<and>
           (\<forall>i<length vec. vec ! i =
              (if \<exists>c\<in>set s. lookup_token (surname_vocab vz) [c] = Inr (int i) then 1 else 0)) \<and>
           (\<forall>s'. set s' = set s \<longrightarrow> vectorize vz s' = Inr vec) \<and>
           vectorize vz ''ab'' = vectorize vz ''ba'' \<and>
           vectorize vz ''aab'' = vectorize vz ''ab''"
proof -
  have same: "vectorize vz s1 = vectorize vz s2" if "set s1 = set s2" for s1 s2
  proof -
    from vectorize_multi_hot_aux [OF assms, of s1] obtain v1 where
      v1: "vectorize vz s1 = Inr v1" "length v1 = len_vocab (surname_vocab vz)"
        "\<forall>i<length v1. v1 ! i =
           (if \<exists>c\<in>set s1. lookup_token (surname_vocab vz) [c] = Inr (int i) then 1 else 0)"
      by blast
    from vectorize_multi_hot_aux [OF assms, of s2] obtain v2 where
      v2: "vectorize vz s2 = Inr v2" "length v2 = len_vocab (surname_vocab vz)"
        "\<forall>i<length v2. v2 ! i =
           (if \<exists>c\<in>set s2. lookup_token (surname_vocab vz) [c] = Inr (int i) then 1 else 0)"
      by blast
    have "v1 = v2"
    proof (rule nth_equalityI)
      show "length v1 = length v2" using v1(2) v2(2) by simp
    next
      fix i assume "i < length v1"
      then show "v1 ! i = v2 ! i" using v1(2,3) v2(2,3) that by simp
    qed
    then show ?thesis using v1(1) v2(1) by simp
  qed
  from vectorize_multi_hot_aux [OF assms, of s] obtain vec where
    vec: "vectorize vz s = Inr vec" "length vec = len_vocab (surname_vocab vz)"
      "\<forall>i<length vec. vec ! i =
         (if \<exists>c\<in>set s. lookup_token (surname_vocab vz) [c] = Inr (int i) then 1 else 0)"
    by blast
  have "\<forall>s'. set s' = set s \<longrightarrow> vectorize vz s' = Inr vec"
    using same vec(1) by metis
  moreover have "vectorize vz ''ab'' = vectorize vz ''ba''"
    by (rule same) auto
  moreover have "vectorize vz ''aab'' = vectorize vz ''ab''"
    by (rule same) auto
  ultimately show ?thesis using vec by blast
qed

theorem vectorize_multi_hot_witness:
  "forward_ok (surname_vocab (from_dataframe example_rows)) \<and>
   add_unk (surname_vocab (from_dataframe example_rows)) \<and>
   set ''ab'' = set ''ba'' \<and>
   vectorize (from_dataframe example_rows) ''ba'' = Inr [0, 1, 1, 0] \<and>
   vectorize (from_dataframe example_rows) ''ab'' = Inr [0, 1, 1, 0]"
proof -
  let ?vz = "from_dataframe example_rows"
  have h1: "forward_ok (surname_vocab ?vz)" by code_simp
  have h2: "add_unk (surname_vocab ?vz)" by code_simp
  have h3: "set ''ab'' = set ''ba''" by auto
  have e: "vectorize ?vz ''ba'' = Inr [0, 1, 1, 0]" by code_simp
  from vectorize_multi_hot [OF h1 h2, of "''ba''"] obtain vec where
    v: "vectorize ?vz ''ba'' = Inr vec" "\<forall>s'. set s' = set ''ba'' \<longrightarrow> vectorize ?vz s' = Inr vec"
    by blast
  from v(2) h3 have "vectorize ?vz ''ab'' = Inr vec" by blast
  with v(1) e have "vectorize ?vz ''ab'' = Inr [0, 1, 1, 0]" by simp
  with h1 h2 h3 e show ?thesis by blast
qed

text \<open>
  C6. Degenerate inputs: the empty surname gives the all-zero vector of the size of the
  vocabulary, and a non-empty surname none of whose characters is in the forward dictionary
  gives the vector whose only 1 is at the index of the unknown token; neither raises.
\<close>

theorem vectorize_degenerate:
  assumes "forward_ok (surname_vocab vz)" "add_unk (surname_vocab vz)"
  shows "vectorize vz [] = Inr (replicate (len_vocab (surname_vocab vz)) 0) \<and>
         0 \<le> unk_index (surname_vocab vz) \<and>
         nat (unk_index (surname_vocab vz)) < len_vocab (surname_vocab vz) \<and>
         lookup_token (surname_vocab vz) (unk_token (surname_vocab vz))
           = Inr (unk_index (surname_vocab vz)) \<and>
         (s \<noteq> [] \<and> (\<forall>c\<in>set s. map_of (token_to_idx (surname_vocab vz)) [c] = None) \<longrightarrow>
            vectorize vz s =
              Inr ((replicate (len_vocab (surname_vocab vz)) 0)
                     [nat (unk_index (surname_vocab vz)) := 1]))"
proof -
  let ?v = "surname_vocab vz"
  let ?n = "len_vocab ?v"
  have e: "vectorize vz [] = Inr (replicate ?n 0)"
    by (simp add: vectorize_def)
  from assms have u: "map_of (token_to_idx ?v) (unk_token ?v) = Some (unk_index ?v)"
    by (simp add: forward_ok_def)
  from forward_ok_range [OF assms(1) u]
  have ur: "0 \<le> unk_index ?v" "nat (unk_index ?v) < ?n"
    by (auto simp: len_vocab_def)
  have lu: "lookup_token ?v (unk_token ?v) = Inr (unk_index ?v)"
    using u by (rule lookup_token_hit)
  have d: "vectorize vz s = Inr ((replicate ?n 0)[nat (unk_index ?v) := 1])"
    if ne: "s \<noteq> []" and un: "\<forall>c\<in>set s. map_of (token_to_idx ?v) [c] = None"
  proof -
    from vectorize_multi_hot_aux [OF assms, of s] obtain vec where
      vec: "vectorize vz s = Inr vec" "length vec = ?n"
        "\<forall>i<length vec. vec ! i =
           (if \<exists>c\<in>set s. lookup_token ?v [c] = Inr (int i) then 1 else 0)"
      by blast
    have lk: "lookup_token ?v [c] = Inr (unk_index ?v)" if "c \<in> set s" for c
      using lookup_token_miss_unk [OF assms] un that by simp
    obtain c0 where c0: "c0 \<in> set s" using ne by (cases s) auto
    have "vec = (replicate ?n 0)[nat (unk_index ?v) := 1]"
    proof (rule nth_equalityI)
      show "length vec = length ((replicate ?n (0::real))[nat (unk_index ?v) := 1])"
        using vec(2) by simp
    next
      fix i assume i: "i < length vec"
      have "(\<exists>c\<in>set s. lookup_token ?v [c] = Inr (int i)) \<longleftrightarrow> i = nat (unk_index ?v)"
        using lk c0 ur(1) by auto
      then show "vec ! i = (replicate ?n 0)[nat (unk_index ?v) := 1] ! i"
        using vec(2,3) i by (simp add: nth_list_update)
    qed
    then show ?thesis using vec(1) by simp
  qed
  show ?thesis using e ur lu d by blast
qed

theorem vectorize_degenerate_witness:
  "forward_ok (surname_vocab (from_dataframe example_rows)) \<and>
   add_unk (surname_vocab (from_dataframe example_rows)) \<and>
   ''zq'' \<noteq> [] \<and>
   map_of (token_to_idx (surname_vocab (from_dataframe example_rows))) ''z'' = None \<and>
   map_of (token_to_idx (surname_vocab (from_dataframe example_rows))) ''q'' = None \<and>
   vectorize (from_dataframe example_rows) ''zq'' = Inr [1, 0, 0, 0] \<and>
   vectorize (from_dataframe example_rows) [] = Inr [0, 0, 0, 0]"
proof -
  let ?vz = "from_dataframe example_rows"
  have h1: "forward_ok (surname_vocab ?vz)" by code_simp
  have h2: "add_unk (surname_vocab ?vz)" by code_simp
  have z1: "map_of (token_to_idx (surname_vocab ?vz)) ''z'' = None" by code_simp
  have z2: "map_of (token_to_idx (surname_vocab ?vz)) ''q'' = None" by code_simp
  have h3: "''zq'' \<noteq> [] \<and>
    (\<forall>c\<in>set ''zq''. map_of (token_to_idx (surname_vocab ?vz)) [c] = None)"
    using z1 z2 by simp
  have r: "(replicate (len_vocab (surname_vocab ?vz)) (0::real))
             [nat (unk_index (surname_vocab ?vz)) := 1] = [1, 0, 0, 0]" by code_simp
  have z: "replicate (len_vocab (surname_vocab ?vz)) (0::real) = [0, 0, 0, 0]" by code_simp
  from vectorize_degenerate [OF h1 h2, of "''zq''"] h3
  have "vectorize ?vz ''zq'' = Inr ((replicate (len_vocab (surname_vocab ?vz)) 0)
             [nat (unk_index (surname_vocab ?vz)) := 1])"
    and "vectorize ?vz [] = Inr (replicate (len_vocab (surname_vocab ?vz)) 0)" by blast+
  with r z have "vectorize ?vz ''zq'' = Inr [1, 0, 0, 0]" "vectorize ?vz [] = Inr [0, 0, 0, 0]"
    by simp_all
  with h1 h2 z1 z2 show ?thesis by simp
qed

section \<open>The dataset\<close>

lemma SurnameDataset_init_fields:
  assumes "SurnameDataset_init df vz = Inr ds"
  shows "target_split ds = ''train'' \<and>
         target_df ds = filter (\<lambda>r. split r = ''train'') df \<and>
         target_size ds = length (filter (\<lambda>r. split r = ''train'') df) \<and>
         lookup_dict ds =
           [(''train'', (filter (\<lambda>r. split r = ''train'') df,
                         length (filter (\<lambda>r. split r = ''train'') df))),
            (''val'', (filter (\<lambda>r. split r = ''val'') df,
                       length (filter (\<lambda>r. split r = ''val'') df))),
            (''test'', (filter (\<lambda>r. split r = ''test'') df,
                        length (filter (\<lambda>r. split r = ''test'') df)))] \<and>
         vectorizer ds = vz \<and> surname_df ds = df"
  using assms
  by (auto simp: SurnameDataset_init_def set_split_def Let_def split: sum.splits)

lemma set_split_target:
  assumes "set_split ds0 (Some name) = (ds, None)"
  shows "target_split ds = name \<and> map_of (lookup_dict ds0) name = Some (target_df ds, target_size ds)
         \<and> lookup_dict ds = lookup_dict ds0 \<and> vectorizer ds = vectorizer ds0"
  using assms by (auto simp: set_split_def Let_def split: option.splits)

lemma constructed_lookup:
  assumes "map_of [(''train'', (filter (\<lambda>r. split r = ''train'') df,
                         length (filter (\<lambda>r. split r = ''train'') df))),
            (''val'', (filter (\<lambda>r. split r = ''val'') df,
                       length (filter (\<lambda>r. split r = ''val'') df))),
            (''test'', (filter (\<lambda>r. split r = ''test'') df,
                        length (filter (\<lambda>r. split r = ''test'') df)))] name = Some (d, n)"
  shows "d = filter (\<lambda>r. split r = name) df \<and> n = length (filter (\<lambda>r. split r = name) df)"
  using assms by (auto split: if_splits)

lemma set_split_unknown_name:
  assumes "SurnameDataset_init df vz = Inr ds" "name \<notin> {''train'', ''val'', ''test''}"
  shows "set_split ds (Some name) = (ds\<lparr>target_split := name\<rparr>, Some KeyError)"
  using SurnameDataset_init_fields [OF assms(1)] assms(2)
  by (simp add: set_split_def Let_def)

lemma mapM_err_all_Inr:
  "(\<forall>x\<in>set xs. f x = Inr (g x)) \<Longrightarrow> mapM_err f xs = Inr (map g xs)"
  by (induction xs) simp_all

lemma mapM_err_Inr:
  "mapM_err f xs = Inr ys \<Longrightarrow> map f xs = map Inr ys"
  by (induction xs arbitrary: ys) (auto split: sum.splits)

lemma mapM_err_Inl:
  assumes "\<forall>x\<in>set xs. f x = Inl e \<or> (\<exists>y. f x = Inr y)" "\<exists>x\<in>set xs. f x = Inl e"
  shows "mapM_err f xs = Inl e"
  using assms
proof (induction xs)
  case Nil
  then show ?case by simp
next
  case (Cons x xs)
  show ?case
  proof (cases "f x")
    case (Inl e')
    then show ?thesis using Cons.prems(1) by auto
  next
    case (Inr y)
    then have "\<exists>x\<in>set xs. f x = Inl e" using Cons.prems(2) by auto
    then have "mapM_err f xs = Inl e" using Cons.IH Cons.prems(1) by simp
    then show ?thesis using Inr by simp
  qed
qed

lemma distinct_map_sort_key:
  "distinct (map f ys) \<Longrightarrow> distinct (map f (sort_key g ys))"
  by (simp add: distinct_map)

lemma value_counts_props:
  "distinct (map fst (value_counts xs)) \<and> fst ` set (value_counts xs) = set xs \<and>
   (\<forall>p\<in>set (value_counts xs). snd p = count_list xs (fst p))"
proof -
  let ?ys = "map (\<lambda>x. (x, count_list xs x)) (rev (remdups (rev xs)))"
  have m: "map fst ?ys = rev (remdups (rev xs))" by (simp add: comp_def)
  have d: "distinct (map fst ?ys)" unfolding m by simp
  have "distinct (map fst (sort_key (\<lambda>(x, c). - int c) ?ys))"
    using d by (rule distinct_map_sort_key)
  moreover have "fst ` set (sort_key (\<lambda>(x, c). - int c) ?ys) = set xs"
    by (simp add: image_image)
  moreover have "\<forall>p\<in>set (sort_key (\<lambda>(x, c). - int c) ?ys). snd p = count_list xs (fst p)"
    by auto
  ultimately show ?thesis by (simp add: value_counts_def)
qed

lemma count_list_rows:
  "count_list (map nationality df) n = length (filter (\<lambda>r. nationality r = n) df)"
  by (induction df) auto

lemma sort_keys_are_positions:
  fixes keys :: "int list"
  assumes "distinct keys" "length keys = length items" "set keys = int ` {0..<n}"
  shows "map fst (sort_key fst (zip keys items)) = map int [0..<n]"
proof (rule sorted_distinct_set_unique)
  have k: "map fst (zip keys items) = keys" using assms(2) by simp
  show "sorted (map fst (sort_key fst (zip keys items)))" by (rule sorted_sort_key)
  have "distinct (map fst (zip keys items))" using assms(1) k by simp
  then show "distinct (map fst (sort_key fst (zip keys items)))"
    by (simp add: distinct_map)
  show "sorted (map int [0..<n])" by (simp add: sorted_map)
  show "distinct (map int [0..<n])" by (simp add: distinct_map)
  have "set (map fst (sort_key fst (zip keys items))) = set (map fst (zip keys items))"
    by simp
  then show "set (map fst (sort_key fst (zip keys items))) = set (map int [0..<n])"
    using assms(3) k by simp
qed

lemma SurnameDataset_init_class_weights:
  assumes "SurnameDataset_init df vz = Inr ds"
  shows "\<exists>sc. sorted_py (\<lambda>item. lookup_token (nationality_vocab vz) (fst item))
                 (value_counts (map nationality df)) = Inr sc \<and>
              class_weights ds = map (\<lambda>c. 1 / real c) (map snd sc) \<and> vectorizer ds = vz"
  using assms
  by (auto simp: SurnameDataset_init_def set_split_def Let_def split: sum.splits)

text \<open>
  The constructor returns exactly when the nationality vocabulary knows every nationality
  of the collection, and raises \<^verbatim>\<open>KeyError\<close> otherwise.
\<close>

lemma SurnameDataset_init_result:
  assumes "forward_ok (nationality_vocab vz)" "\<not> add_unk (nationality_vocab vz)"
  shows "if nationality ` set df \<subseteq> fst ` set (token_to_idx (nationality_vocab vz))
         then \<exists>ds. SurnameDataset_init df vz = Inr ds
         else SurnameDataset_init df vz = Inl KeyError"
proof -
  let ?nv = "nationality_vocab vz"
  let ?m = "token_to_idx ?nv"
  let ?items = "value_counts (map nationality df)"
  let ?f = "\<lambda>item. lookup_token ?nv (fst item)"
  note lk = lookup_token_no_unk [OF assms]
  have names: "fst ` set ?items = nationality ` set df"
    using value_counts_props [of "map nationality df"] by simp
  show ?thesis
  proof (cases "nationality ` set df \<subseteq> fst ` set ?m")
    case True
    have "\<forall>item\<in>set ?items. ?f item = Inr (the (map_of ?m (fst item)))"
    proof
      fix item assume "item \<in> set ?items"
      then have "fst item \<in> fst ` set ?m" using names True by auto
      then obtain i where "map_of ?m (fst item) = Some i"
        by (metis domD dom_map_of_conv_image_fst)
      then show "?f item = Inr (the (map_of ?m (fst item)))" by (simp add: lk)
    qed
    then have "mapM_err ?f ?items = Inr (map (\<lambda>item. the (map_of ?m (fst item))) ?items)"
      by (rule mapM_err_all_Inr)
    then show ?thesis
      using True by (simp add: SurnameDataset_init_def set_split_def Let_def sorted_py_def)
  next
    case False
    then obtain n where n: "n \<in> nationality ` set df" "n \<notin> fst ` set ?m" by auto
    then have "n \<in> fst ` set ?items" using names by simp
    then obtain item where item: "item \<in> set ?items" "fst item = n" by (metis imageE)
    have "map_of ?m n = None" using n(2) by (simp add: map_of_eq_None_iff)
    then have "?f item = Inl KeyError" using item(2) by (simp add: lk)
    moreover have "\<forall>x\<in>set ?items. ?f x = Inl KeyError \<or> (\<exists>y. ?f x = Inr y)"
      by (auto simp: lk split: option.splits)
    ultimately have "mapM_err ?f ?items = Inl KeyError"
      using item(1) mapM_err_Inl [of ?items ?f KeyError] by blast
    then show ?thesis
      using False by (simp add: SurnameDataset_init_def set_split_def Let_def sorted_py_def)
  qed
qed

lemma make_vectorizer_nationalities:
  "forward_ok (nationality_vocab (from_dataframe (filter (\<lambda>r. split r = ''train'') df))) \<and>
   \<not> add_unk (nationality_vocab (from_dataframe (filter (\<lambda>r. split r = ''train'') df))) \<and>
   fst ` set (token_to_idx
       (nationality_vocab (from_dataframe (filter (\<lambda>r. split r = ''train'') df))))
     \<subseteq> nationality ` set df"
  using from_dataframe_ok [of "filter (\<lambda>r. split r = ''train'') df"] by auto

text \<open>
  C4. Class weights. When the constructor returns, for a nationality vocabulary without
  unknown token whose indices were assigned by \<^verbatim>\<open>add_token\<close> and whose nationalities all
  occur in the collection (the vocabulary that \<^verbatim>\<open>load_dataset_and_make_vectorizer\<close> builds
  from the training rows, see \<open>make_vectorizer_nationalities\<close>), \<^verbatim>\<open>class_weights\<close> has as many
  entries as the nationality vocabulary, and the entry at \<^verbatim>\<open>lookup_token(n)\<close> is 1
  divided by the number of rows of the whole collection, whatever their split, whose
  nationality is \<open>n\<close>.
\<close>

theorem class_weights_inverse_frequency:
  assumes init: "SurnameDataset_init df vz = Inr ds"
    and ok: "forward_ok (nationality_vocab vz)"
    and nounk: "\<not> add_unk (nationality_vocab vz)"
    and sub: "fst ` set (token_to_idx (nationality_vocab vz)) \<subseteq> nationality ` set df"
  shows "length (class_weights ds) = len_vocab (nationality_vocab (vectorizer ds)) \<and>
         (\<forall>r\<in>set df. \<exists>i.
            lookup_token (nationality_vocab (vectorizer ds)) (nationality r) = Inr (int i) \<and>
            i < length (class_weights ds) \<and>
            class_weights ds ! i =
              1 / real (length (filter (\<lambda>r'. nationality r' = nationality r) df)))"
proof -
  let ?nv = "nationality_vocab vz"
  let ?m = "token_to_idx ?nv"
  let ?N = "length ?m"
  let ?items = "value_counts (map nationality df)"
  let ?f = "\<lambda>item. lookup_token ?nv (fst item)"
  from SurnameDataset_init_class_weights [OF init] obtain sc where
    sc: "sorted_py ?f ?items = Inr sc" and
    cw: "class_weights ds = map (\<lambda>c. 1 / real c) (map snd sc)" and
    vz: "vectorizer ds = vz" by blast
  from sc obtain keys where
    keys: "mapM_err ?f ?items = Inr keys" and
    sc_eq: "sc = map snd (sort_key fst (zip keys ?items))"
    by (auto simp: sorted_py_def split: sum.splits)
  from mapM_err_Inr [OF keys] have mk: "map ?f ?items = map Inr keys" .
  then have lk: "length keys = length ?items" by (metis length_map)
  have key_of: "map_of ?m (fst (?items ! j)) = Some (keys ! j)" if "j < length ?items" for j
  proof -
    from mk that lk have "?f (?items ! j) = Inr (keys ! j)" by (metis nth_map)
    then show ?thesis
      using lookup_token_no_unk [OF ok nounk, of "fst (?items ! j)"]
      by (auto split: option.splits)
  qed
  note vc = value_counts_props [of "map nationality df"]
  have di: "distinct (map fst ?items)" using vc by simp
  have names: "fst ` set ?items = nationality ` set df" using vc by simp
  have dk: "distinct keys"
    unfolding distinct_conv_nth
  proof (intro allI impI)
    fix i j assume ij: "i < length keys" "j < length keys" "i \<noteq> j"
    show "keys ! i \<noteq> keys ! j"
    proof
      assume e: "keys ! i = keys ! j"
      have "fst (?items ! i) = fst (?items ! j)"
        using forward_ok_inj [OF ok, of "fst (?items ! i)" "keys ! i" "fst (?items ! j)"]
          key_of [of i] key_of [of j] ij lk e by simp
      then have "i = j"
        using nth_eq_iff_index_eq [OF di, of i j] ij lk by simp
      with ij show False by simp
    qed
  qed
  have sk: "set keys = int ` {0..<?N}"
  proof (intro set_eqI iffI)
    fix k assume "k \<in> set keys"
    then obtain j where j: "j < length keys" "keys ! j = k" by (auto simp: in_set_conv_nth)
    then have "map_of ?m (fst (?items ! j)) = Some k" using key_of lk by simp
    from forward_ok_range [OF ok this] have "0 \<le> k" "k < int ?N" by simp_all
    then have "k = int (nat k)" "nat k < ?N" by simp_all
    then show "k \<in> int ` {0..<?N}" by (metis atLeastLessThan_iff image_eqI le0)
  next
    fix k assume "k \<in> int ` {0..<?N}"
    then obtain i where i: "i < ?N" "k = int i" by auto
    have "map snd ?m ! i = int i"
    proof -
      have "map snd ?m = map int [0..<?N]" using ok by (simp add: forward_ok_def)
      then show ?thesis using i(1) by simp
    qed
    then have sm: "snd (?m ! i) = int i" using i(1) by simp
    have mem: "?m ! i \<in> set ?m" using i(1) by simp
    then have "(fst (?m ! i), int i) \<in> set ?m" using sm by (metis prod.collapse)
    moreover have "distinct (map fst ?m)" using ok by (simp add: forward_ok_def)
    ultimately have mo: "map_of ?m (fst (?m ! i)) = Some (int i)" by simp
    have "fst (?m ! i) \<in> fst ` set ?m" using mem by simp
    then have "fst (?m ! i) \<in> fst ` set ?items" using sub names by auto
    then obtain j where j: "j < length ?items" "fst (?items ! j) = fst (?m ! i)"
      by (auto simp: in_set_conv_nth)
    from key_of [OF j(1)] j(2) mo have "keys ! j = int i" by simp
    then show "k \<in> set keys" using j(1) lk i(2) by (metis nth_mem)
  qed
  have lN: "length keys = ?N"
  proof -
    have "length keys = card (set keys)" using dk by (simp add: distinct_card)
    also have "\<dots> = card (int ` {0..<?N})" using sk by simp
    also have "\<dots> = ?N" by (simp add: card_image)
    finally show ?thesis .
  qed
  let ?sorted = "sort_key fst (zip keys ?items)"
  have pos: "map fst ?sorted = map int [0..<?N]"
    using dk lk sk by (rule sort_keys_are_positions)
  have ls: "length ?sorted = ?N" using lk lN by simp
  have len: "length (class_weights ds) = len_vocab (nationality_vocab (vectorizer ds))"
    using cw sc_eq ls vz by (simp add: len_vocab_def)
  have each: "\<exists>i. lookup_token (nationality_vocab (vectorizer ds)) (nationality r) = Inr (int i) \<and>
            i < length (class_weights ds) \<and>
            class_weights ds ! i =
              1 / real (length (filter (\<lambda>r'. nationality r' = nationality r) df))"
    if r: "r \<in> set df" for r
  proof -
    have "nationality r \<in> fst ` set ?items" using names r by auto
    then obtain j where j: "j < length ?items" "fst (?items ! j) = nationality r"
      by (auto simp: in_set_conv_nth)
    have cj: "snd (?items ! j) = count_list (map nationality df) (nationality r)"
      using vc j by (metis nth_mem)
    from key_of [OF j(1)] j(2) have mo: "map_of ?m (nationality r) = Some (keys ! j)" by simp
    have "keys ! j \<in> set keys" using j(1) lk by simp
    then obtain i where i: "i < ?N" "keys ! j = int i" using sk by auto
    have look: "lookup_token ?nv (nationality r) = Inr (int i)"
      using mo i(2) by (simp add: lookup_token_hit)
    have "fst (?sorted ! i) = int i"
    proof -
      have "map fst ?sorted ! i = map int [0..<?N] ! i" using pos by simp
      then show ?thesis using i(1) ls by simp
    qed
    moreover have "?sorted ! i \<in> set (zip keys ?items)"
    proof -
      have "?sorted ! i \<in> set ?sorted" using i(1) ls by (metis nth_mem)
      then show ?thesis by simp
    qed
    then obtain j' where j': "j' < length keys" "?sorted ! i = (keys ! j', ?items ! j')"
      using lk by (auto simp: in_set_zip)
    ultimately have "keys ! j' = keys ! j" using i(2) by simp
    then have "j' = j" using dk j'(1) j(1) lk by (simp add: nth_eq_iff_index_eq)
    then have "snd (?sorted ! i) = ?items ! j" using j'(2) by simp
    then have "sc ! i = ?items ! j" using sc_eq i(1) ls by simp
    then have "class_weights ds ! i = 1 / real (snd (?items ! j))"
      using cw sc_eq i(1) ls by simp
    then have "class_weights ds ! i =
        1 / real (length (filter (\<lambda>r'. nationality r' = nationality r) df))"
      using cj by (simp add: count_list_rows)
    moreover have "i < length (class_weights ds)" using cw sc_eq ls i(1) by simp
    ultimately show ?thesis using look vz by blast
  qed
  show ?thesis using len each by blast
qed

theorem class_weights_inverse_frequency_witness:
  "forward_ok (nationality_vocab (from_dataframe (filter (\<lambda>r. split r = ''train'') example_rows))) \<and>
   \<not> add_unk (nationality_vocab (from_dataframe (filter (\<lambda>r. split r = ''train'') example_rows))) \<and>
   fst ` set (token_to_idx (nationality_vocab
       (from_dataframe (filter (\<lambda>r. split r = ''train'') example_rows))))
     \<subseteq> nationality ` set example_rows \<and>
   (\<exists>ds. SurnameDataset_init example_rows
            (from_dataframe (filter (\<lambda>r. split r = ''train'') example_rows)) = Inr ds \<and>
         class_weights ds = [1 / 2, 1 / 3] \<and>
         length (class_weights ds) = len_vocab (nationality_vocab (vectorizer ds)) \<and>
         lookup_token (nationality_vocab (vectorizer ds)) ''Y'' = Inr 1)"
proof -
  let ?vz = "from_dataframe (filter (\<lambda>r. split r = ''train'') example_rows)"
  have h1: "forward_ok (nationality_vocab ?vz)" by code_simp
  have h2: "\<not> add_unk (nationality_vocab ?vz)" by code_simp
  have h3: "fst ` set (token_to_idx (nationality_vocab ?vz)) \<subseteq> nationality ` set example_rows"
    by code_simp
  have "case SurnameDataset_init example_rows ?vz of
          Inl e \<Rightarrow> False
        | Inr ds \<Rightarrow> class_weights ds = [1 / 2, 1 / 3] \<and>
                   lookup_token (nationality_vocab (vectorizer ds)) ''Y'' = Inr 1"
    by code_simp
  then obtain ds where ds: "SurnameDataset_init example_rows ?vz = Inr ds"
    "class_weights ds = [1 / 2, 1 / 3]"
    "lookup_token (nationality_vocab (vectorizer ds)) ''Y'' = Inr 1"
    by (auto split: sum.splits)
  from class_weights_inverse_frequency [OF ds(1) h1 h2 h3]
  have "length (class_weights ds) = len_vocab (nationality_vocab (vectorizer ds))" by blast
  with h1 h2 h3 ds show ?thesis by blast
qed

text \<open>
  C8. \<^verbatim>\<open>get_num_batches\<close> with a positive batch size is the floor of the size of the
  active split divided by the batch size: the batches counted fit into the split and one
  more would not. It is 1 for 120 rows and 2 for 128 rows with batch size 64. The size of
  the active split is the number of rows of the collection that carry the name chosen by
  \<^verbatim>\<open>set_split\<close>.
\<close>

theorem get_num_batches_floor:
  assumes "0 < batch_size"
  shows "get_num_batches ds batch_size = Inr (int (len_dataset ds) div batch_size) \<and>
     (int (len_dataset ds) div batch_size) * batch_size \<le> int (len_dataset ds) \<and>
     int (len_dataset ds) < (int (len_dataset ds) div batch_size) * batch_size + batch_size \<and>
     (len_dataset ds = 120 \<longrightarrow> get_num_batches ds 64 = Inr 1) \<and>
     (len_dataset ds = 128 \<longrightarrow> get_num_batches ds 64 = Inr 2) \<and>
     (SurnameDataset_init df vz = Inr ds0 \<and> set_split ds0 (Some name) = (ds, None) \<longrightarrow>
        len_dataset ds = length (filter (\<lambda>r. split r = name) df))"
proof -
  let ?n = "int (len_dataset ds)"
  have "?n mod batch_size < batch_size" "0 \<le> ?n mod batch_size"
    using assms by simp_all
  moreover have "?n = (?n div batch_size) * batch_size + ?n mod batch_size"
    by simp
  ultimately have b: "(?n div batch_size) * batch_size \<le> ?n \<and>
     ?n < (?n div batch_size) * batch_size + batch_size"
    by linarith
  have s: "len_dataset ds = length (filter (\<lambda>r. split r = name) df)"
    if "SurnameDataset_init df vz = Inr ds0" "set_split ds0 (Some name) = (ds, None)"
    using SurnameDataset_init_fields [OF that(1)] set_split_target [OF that(2)]
      constructed_lookup [of df name "target_df ds" "target_size ds"]
    by (simp add: len_dataset_def)
  show ?thesis using assms b s by (simp add: get_num_batches_def)
qed

theorem get_num_batches_floor_witness:
  "(0::int) < 64 \<and>
   (\<exists>ds0 ds. load_dataset_and_make_vectorizer (rows_of_size 120) = Inr ds0 \<and>
      set_split ds0 (Some ''train'') = (ds, None) \<and>
      len_dataset ds = 120 \<and> get_num_batches ds 64 = Inr 1) \<and>
   (\<exists>ds0 ds. load_dataset_and_make_vectorizer (rows_of_size 128) = Inr ds0 \<and>
      set_split ds0 (Some ''train'') = (ds, None) \<and>
      len_dataset ds = 128 \<and> get_num_batches ds 64 = Inr 2)"
proof -
  have pos: "(0::int) < 64" by simp
  have "case load_dataset_and_make_vectorizer (rows_of_size 120) of
          Inl e \<Rightarrow> False
        | Inr ds0 \<Rightarrow> snd (set_split ds0 (Some ''train'')) = None \<and>
                    len_dataset (fst (set_split ds0 (Some ''train''))) = 120"
    by code_simp
  then obtain a0 a where a: "load_dataset_and_make_vectorizer (rows_of_size 120) = Inr a0"
    "set_split a0 (Some ''train'') = (a, None)" "len_dataset a = 120"
    by (auto split: sum.splits simp: prod_eq_iff)
  have "case load_dataset_and_make_vectorizer (rows_of_size 128) of
          Inl e \<Rightarrow> False
        | Inr ds0 \<Rightarrow> snd (set_split ds0 (Some ''train'')) = None \<and>
                    len_dataset (fst (set_split ds0 (Some ''train''))) = 128"
    by code_simp
  then obtain b0 b where b: "load_dataset_and_make_vectorizer (rows_of_size 128) = Inr b0"
    "set_split b0 (Some ''train'') = (b, None)" "len_dataset b = 128"
    by (auto split: sum.splits simp: prod_eq_iff)
  from get_num_batches_floor [OF pos, of a] a(3) have "get_num_batches a 64 = Inr 1" by blast
  moreover from get_num_batches_floor [OF pos, of b] b(3) have "get_num_batches b 64 = Inr 2"
    by blast
  ultimately show ?thesis using pos a b by blast
qed

text \<open>
  C10. After construction the active split is \<^verbatim>\<open>train\<close>: the length and
  \<^verbatim>\<open>__getitem__\<close> read the training rows. \<^verbatim>\<open>set_split()\<close> without argument is
  \<^verbatim>\<open>set_split("train")\<close>, and brings a dataset that was switched to another split back
  to the training rows.
\<close>

theorem constructor_selects_train:
  assumes "SurnameDataset_init df vz = Inr ds"
  shows "target_split ds = ''train'' \<and>
         target_df ds = filter (\<lambda>r. split r = ''train'') df \<and>
         len_dataset ds = length (filter (\<lambda>r. split r = ''train'') df) \<and>
         getitem ds i =
           (case iloc (filter (\<lambda>r. split r = ''train'') df) i of
              Inl e \<Rightarrow> Inl e
            | Inr r \<Rightarrow>
                (case vectorize vz (surname r) of
                   Inl e \<Rightarrow> Inl e
                 | Inr x \<Rightarrow>
                     (case lookup_token (nationality_vocab vz) (nationality r) of
                        Inl e \<Rightarrow> Inl e
                      | Inr y \<Rightarrow> Inr (x, y)))) \<and>
         set_split ds1 None = set_split ds1 (Some ''train'') \<and>
         (set_split ds (Some name) = (ds2, None) \<longrightarrow>
            snd (set_split ds2 None) = None \<and>
            target_split (fst (set_split ds2 None)) = ''train'' \<and>
            target_df (fst (set_split ds2 None)) = filter (\<lambda>r. split r = ''train'') df \<and>
            len_dataset (fst (set_split ds2 None)) = length (filter (\<lambda>r. split r = ''train'') df))"
proof -
  note f = SurnameDataset_init_fields [OF assms]
  have a: "getitem ds i =
           (case iloc (filter (\<lambda>r. split r = ''train'') df) i of
              Inl e \<Rightarrow> Inl e
            | Inr r \<Rightarrow>
                (case vectorize vz (surname r) of
                   Inl e \<Rightarrow> Inl e
                 | Inr x \<Rightarrow>
                     (case lookup_token (nationality_vocab vz) (nationality r) of
                        Inl e \<Rightarrow> Inl e
                      | Inr y \<Rightarrow> Inr (x, y))))"
  proof -
    from f have "vectorizer ds = vz" "target_df ds = filter (\<lambda>r. split r = ''train'') df"
      by simp_all
    then show ?thesis by (simp only: getitem_def)
  qed
  have b: "set_split ds1 None = set_split ds1 (Some ''train'')"
    by (simp add: set_split_def)
  have c: "snd (set_split ds2 None) = None \<and>
            target_split (fst (set_split ds2 None)) = ''train'' \<and>
            target_df (fst (set_split ds2 None)) = filter (\<lambda>r. split r = ''train'') df \<and>
            len_dataset (fst (set_split ds2 None)) = length (filter (\<lambda>r. split r = ''train'') df)"
    if "set_split ds (Some name) = (ds2, None)"
  proof -
    have "lookup_dict ds2 = lookup_dict ds"
      using set_split_target [OF that] by simp
    then show ?thesis using f by (simp add: set_split_def Let_def len_dataset_def)
  qed
  show ?thesis using f a b c by (simp add: len_dataset_def)
qed

theorem constructor_selects_train_witness:
  "\<exists>ds ds2. load_dataset_and_make_vectorizer example_rows = Inr ds \<and>
      target_split ds = ''train'' \<and> len_dataset ds = 2 \<and>
      set_split ds (Some ''test'') = (ds2, None) \<and> target_split ds2 = ''test'' \<and>
      target_split (fst (set_split ds2 None)) = ''train'' \<and>
      len_dataset (fst (set_split ds2 None)) = 2"
proof -
  let ?vz = "from_dataframe (filter (\<lambda>r. split r = ''train'') example_rows)"
  have "case SurnameDataset_init example_rows ?vz of
          Inl e \<Rightarrow> False
        | Inr ds \<Rightarrow> snd (set_split ds (Some ''test'')) = None \<and>
                   target_split (fst (set_split ds (Some ''test''))) = ''test''"
    by code_simp
  then obtain ds ds2 where ds: "SurnameDataset_init example_rows ?vz = Inr ds"
    "set_split ds (Some ''test'') = (ds2, None)" "target_split ds2 = ''test''"
    by (auto split: sum.splits simp: prod_eq_iff)
  have n: "length (filter (\<lambda>r. split r = ''train'') example_rows) = 2" by code_simp
  from constructor_selects_train [OF ds(1), of 0 ds "''test''" ds2] ds(2) n
  have "target_split ds = ''train''" "len_dataset ds = 2"
    "target_split (fst (set_split ds2 None)) = ''train''"
    "len_dataset (fst (set_split ds2 None)) = 2"
    by simp_all
  with ds show ?thesis by (auto simp: load_dataset_and_make_vectorizer_def Let_def)
qed

section \<open>Early stopping\<close>

text \<open>No call of \<^verbatim>\<open>update_train_state\<close> changes \<^verbatim>\<open>early_stopping_best_val\<close>.\<close>

lemma update_train_state_best_val:
  "update_train_state args m ts files = Inr (ts', files') \<Longrightarrow>
     early_stopping_best_val ts' = early_stopping_best_val ts"
  by (auto simp: update_train_state_def Let_def split: if_splits)

text \<open>
  From epoch 1 on, a validation loss below the stored \<^verbatim>\<open>early_stopping_best_val\<close> saves the
  parameters and resets the counter; the stored value stays what it was.
\<close>

lemma update_train_state_below_best_val:
  assumes "epoch_index ts \<ge> 1" "length (val_loss ts) \<ge> 2"
    and "last (val_loss ts) < early_stopping_best_val ts"
  shows "update_train_state args m ts files =
           Inr (ts\<lparr>early_stopping_step := 0,
                    stop_early := (0 \<ge> early_stopping_criteria args)\<rparr>,
                files(model_filename ts \<mapsto> m))"
  using assms by (simp add: update_train_state_def Let_def)

text \<open>
  C1. Early stopping, evaluated on the run of the claim: patience 5 and the validation
  losses 1.0, 1.1, 1.2, 1.3, 1.4, 1.5, one per epoch. The loop runs through all six epochs
  without setting the stop flag, the counter is 0 at the end, the best validation loss
  is still the initial \<open>1e8\<close>, and the file holds the parameters of epoch 5, not those
  of epoch 0: every loss is below \<open>1e8\<close>, so every epoch saves and resets the
  counter.
\<close>

theorem early_stopping_never_triggers:
  "(case run_training
           \<lparr>early_stopping_criteria = 5, learning_rate = 0.001, model_state_file = ''model.pth''\<rparr>
           [epoch_with_val_loss 0 1.0, epoch_with_val_loss 1 1.1, epoch_with_val_loss 2 1.2,
            epoch_with_val_loss 3 1.3, epoch_with_val_loss 4 1.4, epoch_with_val_loss 5 1.5] of
      Inl e \<Rightarrow> False
    | Inr (ts, files) \<Rightarrow>
        stop_early ts = False \<and> early_stopping_step ts = 0 \<and>
        early_stopping_best_val ts = 100000000 \<and> epoch_index ts = 5 \<and>
        val_loss ts = [1.0, 1.1, 1.2, 1.3, 1.4, 1.5] \<and>
        files ''model.pth'' = Some 5)"
  by (simp add: run_training_def make_train_state_def update_train_state_def
      epoch_with_val_loss_def Let_def upt_rec)

section \<open>Inference\<close>

lemma zip_upt_pair:
  assumes "r \<in> set (zip xs [0..<length xs])"
  shows "fst r = xs ! snd r \<and> snd r < length xs"
proof -
  from assms obtain n where "xs ! n = fst r" "[0..<length xs] ! n = snd r" "n < length xs"
    by (auto simp: in_set_zip)
  then show ?thesis by simp
qed

lemma sorted_map_take:
  "sorted (map f S) \<Longrightarrow> sorted (map f (take n S))"
proof -
  assume "sorted (map f S)"
  then have "sorted (take n (map f S))" by (rule sorted_wrt_take)
  then show ?thesis by (simp only: take_map)
qed

lemma sorted_take_drop_le:
  assumes "sorted (map f S)" "a \<in> set (take n S)" "b \<in> set (drop n S)"
  shows "f a \<le> f b"
proof -
  have "map f S = map f (take n S) @ map f (drop n S)"
    by (simp add: map_append [symmetric])
  with assms(1) have "\<forall>x\<in>set (map f (take n S)). \<forall>y\<in>set (map f (drop n S)). x \<le> y"
    by (simp add: sorted_append)
  moreover have "f a \<in> set (map f (take n S))" using assms(2) by simp
  moreover have "f b \<in> set (map f (drop n S))" using assms(3) by simp
  ultimately show ?thesis by blast
qed

lemma in_take_or_drop:
  "x \<in> set S \<Longrightarrow> x \<in> set (take n S) \<or> x \<in> set (drop n S)"
proof -
  assume "x \<in> set S"
  then have "x \<in> set (take n S @ drop n S)" by simp
  then show ?thesis by (simp only: set_append Un_iff)
qed


text \<open>\<open>topk_by_position\<close> meets the contract of \<^verbatim>\<open>torch.topk\<close>.\<close>

lemma topk_by_position_contract: "topk_contract topk_by_position"
  unfolding topk_contract_def
proof (intro allI)
  fix xs :: "real list" and k :: int
  let ?n = "length xs"
  let ?z = "zip xs [0..<?n]"
  let ?f = "\<lambda>(p :: real, i :: nat). - p"
  let ?S = "sort_key ?f ?z"
  let ?R = "take (nat k) ?S"
  show "if k < 0 \<or> int ?n < k then topk_by_position xs k = Inl RuntimeError
        else (\<exists>vals idxs.
                topk_by_position xs k = Inr (vals, idxs) \<and>
                length idxs = nat k \<and> distinct idxs \<and> set idxs \<subseteq> {0..<?n} \<and>
                vals = map (\<lambda>i. xs ! i) idxs \<and>
                sorted_wrt (\<lambda>a b. a \<ge> b) vals \<and>
                (\<forall>j<?n. j \<notin> set idxs \<longrightarrow> (\<forall>v\<in>set vals. xs ! j \<le> v)))"
  proof (cases "k < 0 \<or> int ?n < k")
    case True
    then show ?thesis by (simp add: topk_by_position_def)
  next
    case False
    then have k: "nat k \<le> ?n" by linarith
    have res: "topk_by_position xs k = Inr (map fst ?R, map snd ?R)"
      using False by (simp add: topk_by_position_def Let_def)
    have inz: "r \<in> set ?z" if "r \<in> set ?R" for r
    proof -
      from that have "r \<in> set ?S" by (rule in_set_takeD)
      then show ?thesis by simp
    qed
    have l: "length (map snd ?R) = nat k" using k by simp
    have "distinct (map snd ?z)" by simp
    then have "distinct (map snd ?S)" by (rule distinct_map_sort_key)
    then have "distinct (take (nat k) (map snd ?S))" by (rule distinct_take)
    then have d: "distinct (map snd ?R)" by (simp only: take_map)
    have r: "set (map snd ?R) \<subseteq> {0..<?n}"
    proof
      fix i assume "i \<in> set (map snd ?R)"
      then obtain q where q: "q \<in> set ?R" "i = snd q" by auto
      from zip_upt_pair [OF inz [OF q(1)]] q(2) show "i \<in> {0..<?n}" by simp
    qed
    have v: "map fst ?R = map (\<lambda>i. xs ! i) (map snd ?R)"
    proof -
      have "\<forall>q\<in>set ?R. fst q = xs ! snd q"
        using zip_upt_pair inz by blast
      then have "map fst ?R = map (\<lambda>q. xs ! snd q) ?R" by (simp only: map_eq_conv)
      then show ?thesis by (simp only: map_map comp_def)
    qed
    have srt: "sorted (map ?f ?S)" by (rule sorted_sort_key)
    then have "sorted (map ?f ?R)" by (rule sorted_map_take)
    then have "sorted_wrt (\<lambda>a b. ?f a \<le> ?f b) ?R" by (simp only: sorted_wrt_map)
    then have "sorted_wrt (\<lambda>a b. fst a \<ge> fst b) ?R" by (simp add: case_prod_beta)
    then have s: "sorted_wrt (\<lambda>a b. a \<ge> b) (map fst ?R)" by (simp only: sorted_wrt_map)
    have big: "\<forall>j<?n. j \<notin> set (map snd ?R) \<longrightarrow> (\<forall>v\<in>set (map fst ?R). xs ! j \<le> v)"
    proof (intro allI impI ballI)
      fix j v assume j: "j < ?n" "j \<notin> set (map snd ?R)" and v: "v \<in> set (map fst ?R)"
      have "?z ! j = (xs ! j, j)" using j(1) by simp
      moreover have "j < length ?z" using j(1) by simp
      ultimately have "(xs ! j, j) \<in> set ?z" by (metis nth_mem)
      then have "(xs ! j, j) \<in> set ?S" by simp
      then have "(xs ! j, j) \<in> set ?R \<or> (xs ! j, j) \<in> set (drop (nat k) ?S)"
        by (rule in_take_or_drop)
      moreover have "(xs ! j, j) \<notin> set ?R"
      proof
        assume "(xs ! j, j) \<in> set ?R"
        then have "snd (xs ! j, j) \<in> snd ` set ?R" by (rule imageI)
        then show False using j(2) by simp
      qed
      ultimately have dr: "(xs ! j, j) \<in> set (drop (nat k) ?S)" by blast
      from v obtain q where q: "q \<in> set ?R" "v = fst q" by auto
      from sorted_take_drop_le [OF srt q(1) dr] have "?f q \<le> ?f (xs ! j, j)" .
      then show "xs ! j \<le> v" using q(2) by (simp add: case_prod_beta)
    qed
    from res l d r v s big have ex:
      "\<exists>vals idxs.
         topk_by_position xs k = Inr (vals, idxs) \<and>
         length idxs = nat k \<and> distinct idxs \<and> set idxs \<subseteq> {0..<?n} \<and>
         vals = map (\<lambda>i. xs ! i) idxs \<and>
         sorted_wrt (\<lambda>a b. a \<ge> b) vals \<and>
         (\<forall>j<?n. j \<notin> set idxs \<longrightarrow> (\<forall>v\<in>set vals. xs ! j \<le> v))"
      by (intro exI [of _ "map fst ?R"] exI [of _ "map snd ?R"] conjI)
    show ?thesis unfolding if_not_P [OF False] by (rule ex)
  qed
qed

text \<open>
  C3. Top-k with a \<open>k\<close> above the number of nationalities. The statement holds for the
  notebook cell and a vectorizer as \<^verbatim>\<open>from_dataframe\<close> builds it (see
  \<open>from_dataframe_ok\<close>): with a classifier whose output has one entry per nationality
  and any \<^verbatim>\<open>torch.topk\<close> that meets its contract, the cell cuts \<open>k\<close> down and returns
  exactly \<^verbatim>\<open>len(nationality_vocab)\<close> results in descending order of probability. The cut
  is made by the cell: \<^verbatim>\<open>predict_topk_nationality\<close> called with the same \<open>k\<close> raises the
  \<^verbatim>\<open>RuntimeError\<close> of \<^verbatim>\<open>torch.topk\<close>.
\<close>

theorem topk_cell_clamps:
  assumes "topk_contract topk"
    and "forward_ok (surname_vocab vz)" "add_unk (surname_vocab vz)"
    and "forward_ok (nationality_vocab vz)" "inverse_ok (nationality_vocab vz)"
    and "\<forall>x. length (classifier x) = len_vocab (nationality_vocab vz)"
    and "int (len_vocab (nationality_vocab vz)) < k"
  shows "\<exists>res. topk_cell topk s k classifier vz = Inr res \<and>
               length res = len_vocab (nationality_vocab vz) \<and>
               sorted_wrt (\<lambda>a b. snd a \<ge> snd b) res \<and>
               predict_topk_nationality topk s classifier vz k = Inl RuntimeError"
proof -
  let ?nv = "nationality_vocab vz"
  let ?n = "len_vocab ?nv"
  from vectorize_multi_hot_aux [OF assms(2,3), of s] obtain x where
    x: "vectorize vz s = Inr x" by blast
  let ?p = "classifier x"
  have len: "length ?p = ?n" using assms(6) by simp
  have "\<not> (int ?n < 0 \<or> int (length ?p) < int ?n)" using len by simp
  with assms(1) [unfolded topk_contract_def, rule_format, of "int ?n" ?p]
  obtain vals idxs where
    topk: "topk ?p (int ?n) = Inr (vals, idxs)" and
    li: "length idxs = ?n" and
    ri: "set idxs \<subseteq> {0..<length ?p}" and
    vi: "vals = map (\<lambda>i. ?p ! i) idxs" and
    sv: "sorted_wrt (\<lambda>a b. a \<ge> b) vals"
    by auto
  have lv: "length vals = length idxs" using vi by simp
  let ?zs = "zip vals idxs"
  let ?g = "\<lambda>(prob_value, index). (fst (token_to_idx ?nv ! index), prob_value)"
  let ?f = "\<lambda>(prob_value, index).
              case lookup_index ?nv (int index) of
                Inl e \<Rightarrow> Inl e
              | Inr nat_name \<Rightarrow> Inr (nat_name, prob_value)"
  have "\<forall>r\<in>set ?zs. ?f r = Inr (?g r)"
  proof
    fix r assume "r \<in> set ?zs"
    then have "snd r \<in> set idxs" by (metis set_zip_rightD prod.collapse)
    then have "snd r < ?n" using ri len by auto
    then have "lookup_index ?nv (int (snd r)) = Inr (fst (token_to_idx ?nv ! snd r))"
      using lookup_index_inverse_ok [OF assms(4,5), of "int (snd r)"] by simp
    then show "?f r = Inr (?g r)" by (simp add: case_prod_beta)
  qed
  then have m: "mapM_err ?f ?zs = Inr (map ?g ?zs)"
    by (rule mapM_err_all_Inr)
  have cell: "topk_cell topk s k classifier vz = Inr (map ?g ?zs)"
    using assms(7) x topk m by (simp add: topk_cell_def predict_topk_nationality_def)
  have l: "length (map ?g ?zs) = ?n" using lv li by simp
  have "map snd (map ?g ?zs) = map fst ?zs" by (simp add: case_prod_beta comp_def)
  also have "\<dots> = vals" using lv by simp
  finally have "sorted_wrt (\<lambda>a b. a \<ge> b) (map snd (map ?g ?zs))" using sv by simp
  then have srt: "sorted_wrt (\<lambda>a b. snd a \<ge> snd b) (map ?g ?zs)"
    by (simp only: sorted_wrt_map)
  have "int (length ?p) < k" using assms(7) len by simp
  with assms(1) [unfolded topk_contract_def, rule_format, of k ?p]
  have "topk ?p k = Inl RuntimeError" by simp
  then have raise: "predict_topk_nationality topk s classifier vz k = Inl RuntimeError"
    using x by (simp add: predict_topk_nationality_def)
  show ?thesis using cell l srt raise by blast
qed

theorem topk_cell_clamps_witness:
  "topk_contract topk_by_position \<and>
   forward_ok (surname_vocab (from_dataframe example_rows)) \<and>
   add_unk (surname_vocab (from_dataframe example_rows)) \<and>
   forward_ok (nationality_vocab (from_dataframe example_rows)) \<and>
   inverse_ok (nationality_vocab (from_dataframe example_rows)) \<and>
   (\<forall>x. length ((\<lambda>x. [3 / 10, 7 / 10 :: real]) x)
          = len_vocab (nationality_vocab (from_dataframe example_rows))) \<and>
   int (len_vocab (nationality_vocab (from_dataframe example_rows))) < 5 \<and>
   topk_cell topk_by_position ''ab'' 5 (\<lambda>x. [3 / 10, 7 / 10]) (from_dataframe example_rows)
     = Inr [(''Y'', 7 / 10), (''X'', 3 / 10)] \<and>
   (\<exists>res. topk_cell topk_by_position ''ab'' 5 (\<lambda>x. [3 / 10, 7 / 10])
             (from_dataframe example_rows) = Inr res \<and>
          length res = 2 \<and> sorted_wrt (\<lambda>a b. snd a \<ge> snd b) res)"
proof -
  let ?vz = "from_dataframe example_rows"
  let ?clf = "\<lambda>x :: real list. [3 / 10, 7 / 10 :: real]"
  have h0: "topk_contract topk_by_position" by (rule topk_by_position_contract)
  have h1: "forward_ok (surname_vocab ?vz)" by code_simp
  have h2: "add_unk (surname_vocab ?vz)" by code_simp
  have h3: "forward_ok (nationality_vocab ?vz)" by code_simp
  have h4: "inverse_ok (nationality_vocab ?vz)" by code_simp
  have n: "len_vocab (nationality_vocab ?vz) = 2" by code_simp
  have h5: "\<forall>x. length (?clf x) = len_vocab (nationality_vocab ?vz)" using n by simp
  have h6: "int (len_vocab (nationality_vocab ?vz)) < 5" using n by simp
  have e: "topk_cell topk_by_position ''ab'' 5 ?clf ?vz = Inr [(''Y'', 7 / 10), (''X'', 3 / 10)]"
    by code_simp
  from topk_cell_clamps [OF h0 h1 h2 h3 h4 h5 h6, of "''ab''"] n
  have "\<exists>res. topk_cell topk_by_position ''ab'' 5 ?clf ?vz = Inr res \<and>
          length res = 2 \<and> sorted_wrt (\<lambda>a b. snd a \<ge> snd b) res"
    by auto
  with h0 h1 h2 h3 h4 h5 h6 e show ?thesis by blast
qed

text \<open>
  C3 as it is written fails at two inputs with \<open>k = 5\<close> and two nationalities:
  \<^verbatim>\<open>predict_topk_nationality\<close> itself raises \<^verbatim>\<open>RuntimeError\<close>, and with the vectorizer
  reloaded from its serialized form the cell raises \<^verbatim>\<open>KeyError\<close>, since the reloaded
  nationality vocabulary resolves no index.
\<close>

theorem topk_without_cell_counterexample:
  "len_vocab (nationality_vocab (from_dataframe example_rows)) = 2 \<and>
   predict_topk_nationality topk_by_position ''ab'' (\<lambda>x. [3 / 10, 7 / 10])
       (from_dataframe example_rows) 5
     = Inl RuntimeError \<and>
   len_vocab (nationality_vocab
       (vectorizer_from_serializable (vectorizer_to_serializable (from_dataframe example_rows))))
     = 2 \<and>
   topk_cell topk_by_position ''ab'' 5 (\<lambda>x. [3 / 10, 7 / 10])
       (vectorizer_from_serializable (vectorizer_to_serializable (from_dataframe example_rows)))
     = Inl KeyError"
  by code_simp

end
